theory Spec2Isabelle
  imports Main "HOL-Library.Word" "HOL-Library.Monad_Syntax"
begin

section \<open>The UDP tracker client of lib/client/udp-tracker.js\<close>

text \<open>
  A shallow embedding of \<^verbatim>\<open>lib/client/udp-tracker.js\<close>. A Buffer is a list of
  bytes. A JavaScript exception that leaves a handler uncaught is the value \<open>None\<close>
  of an \<open>option\<close> result. The closures of one call of \<^verbatim>\<open>_request\<close> (its
  \<^verbatim>\<open>opts\<close>, \<^verbatim>\<open>transactionId\<close>, \<^verbatim>\<open>timeout\<close> and \<^verbatim>\<open>socket\<close>) are a record
  kept in the tracker state under the index at which the call created them.
\<close>

subsection \<open>Buffers\<close>

type_synonym byte = "8 word"
type_synonym buffer = "byte list"

text \<open>
  \<^verbatim>\<open>buf.readUInt32BE(off)\<close>: Node raises a RangeError unless \<open>off + 4 \<le> length buf\<close>;
  the value is a JavaScript number, here a \<open>nat\<close>.
\<close>

definition readUInt32BE :: "buffer \<Rightarrow> nat \<Rightarrow> nat option" where
  "readUInt32BE buf off =
     (if off + 4 \<le> length buf
      then Some (foldl (\<lambda>acc b. acc * 256 + unat b) 0 (take 4 (drop off buf)))
      else None)"

text \<open>\<^verbatim>\<open>buf.slice(a, b)\<close> for \<open>a \<le> b\<close>; both ends are clamped to the length.\<close>

definition slice :: "nat \<Rightarrow> nat \<Rightarrow> buffer \<Rightarrow> buffer" where
  "slice a b buf = drop a (take b buf)"

text \<open>\<^verbatim>\<open>buf.toString('hex')\<close>: two lower-case hexadecimal digits for each byte.\<close>

definition hexDigit :: "nat \<Rightarrow> char" where
  "hexDigit n = ''0123456789abcdef'' ! (n mod 16)"

definition toHex :: "buffer \<Rightarrow> string" where
  "toHex buf = concat (map (\<lambda>b. [hexDigit (unat b div 16), hexDigit (unat b)]) buf)"

text \<open>
  \<^verbatim>\<open>toUInt16\<close> (lines 264-268): \<^verbatim>\<open>writeUInt16BE\<close> raises on a value beyond 16 bits.
\<close>

definition toUInt16 :: "nat \<Rightarrow> buffer option" where
  "toUInt16 n = (if n \<le> 65535 then Some [of_nat (n div 256), of_nat n] else None)"

text \<open>
  Modelled from the spec: \<^verbatim>\<open>common.toUInt32\<close> of \<^verbatim>\<open>lib/common.js\<close>, which is not
  among the sources. The spec has every 32-bit field as "4 bytes BE"; the shape follows
  \<^verbatim>\<open>toUInt16\<close> above, with \<^verbatim>\<open>writeUInt32BE\<close> raising beyond 32 bits.
\<close>

definition toUInt32 :: "nat \<Rightarrow> buffer option" where
  "toUInt32 n =
     (if n \<le> 4294967295
      then Some [of_nat (n div 16777216), of_nat (n div 65536), of_nat (n div 256), of_nat n]
      else None)"

text \<open>
  Modelled from the spec: \<^verbatim>\<open>common.CONNECTION_ID\<close>, \<^verbatim>\<open>common.ACTIONS\<close> and
  \<^verbatim>\<open>common.EVENTS\<close> of \<^verbatim>\<open>lib/common.js\<close>, which is not among the sources. The wire
  table of the spec gives the connect request as
  "conn_id=0x0000041727101980 (8B) | action=0 (4B) | txn_id (4B)", the glossary gives the
  action codes connect=0, announce=1, scrape=2, error=3, and the codec section the event
  codes none=0, completed=1, started=2, stopped=3.
\<close>

definition CONNECTION_ID :: buffer where
  "CONNECTION_ID = [0x00, 0x00, 0x04, 0x17, 0x27, 0x10, 0x19, 0x80]"

definition ACTIONS_CONNECT :: nat where "ACTIONS_CONNECT = 0"
definition ACTIONS_ANNOUNCE :: nat where "ACTIONS_ANNOUNCE = 1"
definition ACTIONS_SCRAPE :: nat where "ACTIONS_SCRAPE = 2"

text \<open>\<^verbatim>\<open>common.EVENTS[opts.event] || 0\<close>; \<open>None\<close> is an undefined \<^verbatim>\<open>opts.event\<close>.\<close>

definition EVENTS_or_0 :: "string option \<Rightarrow> nat" where
  "EVENTS_or_0 ev =
     (if ev = Some ''completed'' then 1
      else if ev = Some ''started'' then 2
      else if ev = Some ''stopped'' then 3
      else 0)"

subsection \<open>The 64-bit encoder\<close>

text \<open>
  The argument of \<^verbatim>\<open>toUInt64\<close> is a JavaScript number or a string. Both are held by
  the natural number they denote: a \<open>Number\<close> is a non-negative whole number (which
  JavaScript holds exactly below \<open>2^53\<close>; byte counts beyond that are passed as
  strings), a \<open>DecimalString\<close> a string of decimal digits.
\<close>

datatype count = Number nat | DecimalString nat

definition MAX_UINT :: nat where
  "MAX_UINT = 4294967295"

text \<open>
  \<^verbatim>\<open>new BN(n).toArray()\<close> of the bn.js library: the big-endian bytes of the number
  without leading zero bytes, and the single byte 0 for the number 0. Given a
  JavaScript number, the constructor asserts that it is below \<open>2^53\<close> and throws
  otherwise; a string has no such bound.
\<close>

function natBytes :: "nat \<Rightarrow> buffer" where
  "natBytes n = (if n = 0 then [] else natBytes (n div 256) @ [of_nat n])"
  by pat_completeness auto
termination
  by (relation "measure (\<lambda>n. n)") auto

definition BN_toArray :: "count \<Rightarrow> buffer option" where
  "BN_toArray c =
     (case c of
        Number n \<Rightarrow>
          if n < 9007199254740992 then Some (if n = 0 then [0] else natBytes n) else None
      | DecimalString n \<Rightarrow> Some (if n = 0 then [0] else natBytes n))"

text \<open>\<^verbatim>\<open>while (bytes.length < 8) bytes.unshift(0)\<close> (lines 275-277).\<close>

function unshiftZeros :: "buffer \<Rightarrow> buffer" where
  "unshiftZeros bytes = (if length bytes < 8 then unshiftZeros (0 # bytes) else bytes)"
  by pat_completeness auto
termination
  by (relation "measure (\<lambda>bytes. 8 - length bytes)") auto

text \<open>\<^verbatim>\<open>toUInt64\<close> (lines 272-281).\<close>

definition toUInt64 :: "count \<Rightarrow> buffer option" where
  "toUInt64 c =
     (case c of
        DecimalString n \<Rightarrow> do {
          bytes \<leftarrow> BN_toArray c;
          Some (unshiftZeros bytes)
        }
      | Number n \<Rightarrow>
          if n > MAX_UINT
          then do {
            bytes \<leftarrow> BN_toArray c;
            Some (unshiftZeros bytes)
          }
          else do {
            hi \<leftarrow> toUInt32 0;
            lo \<leftarrow> toUInt32 n;
            Some (hi @ lo)
          })"

text \<open>
  The words of the spec, for comparison: the big-endian representation of \<open>n\<close> in
  \<open>k\<close> bytes.
\<close>

fun bigEndian :: "nat \<Rightarrow> nat \<Rightarrow> buffer" where
  "bigEndian 0 n = []"
| "bigEndian (Suc k) n = bigEndian k (n div 256) @ [of_nat n]"



subsection \<open>Options, client and events\<close>

text \<open>
  \<^verbatim>\<open>opts.infoHash\<close> is undefined, one Buffer or an array of Buffers.
\<close>

datatype infoHashArg = NoInfoHash | OneBuffer buffer | BufferArray "buffer list"

text \<open>
  The options object. \<open>opts_event = None\<close> and \<open>opts_left = None\<close> are the undefined
  (or null) property; \<open>opts_scrape\<close> is \<^verbatim>\<open>opts._scrape\<close>.
\<close>

record opts =
  opts_event :: "string option"
  opts_scrape :: bool
  opts_infoHash :: infoHashArg
  opts_downloaded :: count
  opts_left :: "count option"
  opts_uploaded :: count
  opts_numwant :: nat

text \<open>What the tracker reads of its parent client.\<close>

record client =
  client_infoHash :: string
  client_infoHashBuffer :: buffer
  client_peerIdBuffer :: buffer
  client_port :: nat

text \<open>
  An \<^verbatim>\<open>Error\<close> object is held by its message: \<open>Error m\<close> has the message \<open>m\<close>,
  \<open>ErrorOfBuffer b\<close> is \<^verbatim>\<open>new Error(b.toString())\<close>, whose message is the UTF-8
  text of the bytes \<open>b\<close>.
\<close>

datatype err = Error string | ErrorOfBuffer buffer

text \<open>
  What \<^verbatim>\<open>self.client.emit\<close> is called with: \<open>EmitUpdate announce complete incomplete\<close>,
  \<open>EmitScrape announce infoHash complete downloaded incomplete\<close> (an undefined
  \<^verbatim>\<open>infoHash\<close> is \<open>None\<close>), \<open>EmitPeer\<close> with the 6-byte unit of the address.
\<close>

datatype event =
    EmitWarning err
  | EmitUpdate string nat nat
  | EmitPeer buffer
  | EmitScrape string "string option" nat nat nat

subsection \<open>State\<close>

text \<open>
  The variables one call of \<^verbatim>\<open>_request\<close> closes over. \<^verbatim>\<open>randombytes(4)\<close> gives four
  bytes, held as the 32-bit word they spell big-endian; \<open>timeout\<close> and \<open>socket\<close> say
  that the variable is not null.
\<close>

record request =
  req_opts :: opts
  transactionId :: "32 word"
  timeout :: bool
  socket :: bool

text \<open>
  The tracker object. \<open>interval\<close> is the period of the running re-announce timer;
  \<open>cleanupFns\<close> holds the indices of the requests whose \<^verbatim>\<open>cleanup\<close> closure is in
  the array; \<open>maybeDestroyCleanup\<close> and \<open>destroyTimeout\<close> hold the callback the
  pending \<^verbatim>\<open>destroy\<close> closed over. The last three fields log what goes out:
  the events emitted on the client, the datagrams sent (with the request that sent
  them) and the callbacks called with \<^verbatim>\<open>cb(null)\<close>.
\<close>

record tracker =
  client :: client
  announceUrl :: string
  destroyed :: bool
  interval :: "nat option"
  cleanupFns :: "nat list"
  maybeDestroyCleanup :: "nat option"
  destroyTimeout :: "nat option"
  requests :: "request list"
  emitted :: "event list"
  sent :: "(nat \<times> buffer) list"
  called :: "nat list"

text \<open>
  Modelled from the spec: the constructor and \<^verbatim>\<open>setInterval\<close> of the base
  \<^verbatim>\<open>Tracker\<close> (\<^verbatim>\<open>lib/client/tracker.js\<close>), which is not among the sources. The spec:
  a session starts not destroyed, with no active request, and
  "rescheduleInterval(ms): resets the periodic re-announce timer to the new period".
\<close>

definition UDPTracker :: "client \<Rightarrow> string \<Rightarrow> tracker" where
  "UDPTracker c url =
     \<lparr>client = c, announceUrl = url, destroyed = False, interval = None,
      cleanupFns = [], maybeDestroyCleanup = None, destroyTimeout = None,
      requests = [], emitted = [], sent = [], called = []\<rparr>"

definition setInterval :: "nat \<Rightarrow> tracker \<Rightarrow> tracker" where
  "setInterval ms s = s\<lparr>interval := Some ms\<rparr>"

definition emit :: "event \<Rightarrow> tracker \<Rightarrow> tracker" where
  "emit e s = s\<lparr>emitted := emitted s @ [e]\<rparr>"

definition request_of :: "tracker \<Rightarrow> nat \<Rightarrow> request option" where
  "request_of s rid = (if rid < length (requests s) then Some (requests s ! rid) else None)"

definition setRequest :: "nat \<Rightarrow> request \<Rightarrow> tracker \<Rightarrow> tracker" where
  "setRequest rid r s = s\<lparr>requests := (requests s)[rid := r]\<rparr>"

text \<open>The four bytes of a transaction id.\<close>

definition tidBytes :: "32 word \<Rightarrow> buffer" where
  "tidBytes w = [ucast (drop_bit 24 w), ucast (drop_bit 16 w), ucast (drop_bit 8 w), ucast w]"

subsection \<open>Library functions\<close>

text \<open>\<^verbatim>\<open>arr.indexOf(x)\<close>: the first index of \<open>x\<close>, or -1.\<close>

fun indexOf :: "nat list \<Rightarrow> nat \<Rightarrow> int" where
  "indexOf [] x = - 1"
| "indexOf (y # ys) x =
     (if y = x then 0 else (let i = indexOf ys x in if i < 0 then - 1 else i + 1))"

text \<open>
  \<^verbatim>\<open>arrayRemove(arr, i)\<close> of the unordered-array-remove library: nothing for an index
  out of range, otherwise the last element is popped and, unless it was at \<open>i\<close>, put
  at \<open>i\<close>.
\<close>

definition arrayRemove :: "nat list \<Rightarrow> int \<Rightarrow> nat list" where
  "arrayRemove arr i =
     (if i \<ge> int (length arr) \<or> i < 0 then arr
      else (let l = last arr; arr' = butlast arr
            in if nat i < length arr' then arr'[nat i := l] else arr'))"

text \<open>
  \<^verbatim>\<open>compact2string.multi(buf)\<close> of the compact2string library: it throws unless the
  length is a multiple of 6, and gives one address for each 6-byte unit.
\<close>

fun units6 :: "nat \<Rightarrow> buffer \<Rightarrow> buffer list" where
  "units6 0 buf = []"
| "units6 (Suc k) buf = take 6 buf # units6 k (drop 6 buf)"

definition compact2string_multi :: "buffer \<Rightarrow> err + buffer list" where
  "compact2string_multi buf =
     (if length buf mod 6 \<noteq> 0
      then Inl (Error ''buf length isn't multiple of compact IP/PORTs (6 bytes)'')
      else Inr (units6 (length buf div 6) buf))"

subsection \<open>Cleanup and destroy\<close>

text \<open>
  Lines 109-120 of \<^verbatim>\<open>cleanup\<close>: the timeout is cleared, and a socket that is still
  there is closed and the closure taken out of \<open>cleanupFns\<close>. A request index without
  closures has nothing to run.
\<close>

definition cleanupLocal :: "nat \<Rightarrow> tracker \<Rightarrow> tracker" where
  "cleanupLocal rid s =
     (case request_of s rid of
        None \<Rightarrow> s
      | Some r \<Rightarrow>
          (let r1 = (if timeout r then r\<lparr>timeout := False\<rparr> else r)
           in if socket r1
              then (setRequest rid (r1\<lparr>socket := False\<rparr>) s)
                     \<lparr>cleanupFns := arrayRemove (cleanupFns s) (indexOf (cleanupFns s) rid)\<rparr>
              else setRequest rid r1 s))"

text \<open>
  \<^verbatim>\<open>destroyCleanup\<close> (lines 68-79), for the callback \<open>cb\<close> that \<^verbatim>\<open>destroy\<close> was
  called with. The loop runs each \<^verbatim>\<open>cleanup\<close> of a copy of the array; line 73 has set
  \<^verbatim>\<open>maybeDestroyCleanup\<close> to null, so that line 121 of \<^verbatim>\<open>cleanup\<close> does nothing
  there (lemma \<open>destroyCleanup_loop\<close> below).
\<close>

definition destroyCleanup :: "nat \<Rightarrow> tracker \<Rightarrow> tracker" where
  "destroyCleanup cb s =
     (let s1 = s\<lparr>destroyTimeout := None\<rparr>;
          s2 = s1\<lparr>maybeDestroyCleanup := None\<rparr>;
          s3 = foldl (\<lambda>t rid. cleanupLocal rid t) s2 (cleanupFns s2);
          s4 = s3\<lparr>cleanupFns := []\<rparr>
      in s4\<lparr>called := called s4 @ [cb]\<rparr>)"

text \<open>\<^verbatim>\<open>cleanup\<close> (lines 108-122), with line 121 and the closure of lines 64-66.\<close>

definition cleanup :: "nat \<Rightarrow> tracker \<Rightarrow> tracker" where
  "cleanup rid s =
     (let s1 = cleanupLocal rid s
      in case maybeDestroyCleanup s1 of
           None \<Rightarrow> s1
         | Some cb \<Rightarrow> if cleanupFns s1 = [] then destroyCleanup cb s1 else s1)"

text \<open>\<^verbatim>\<open>onError\<close> (lines 124-131); \<open>m\<close> is \<^verbatim>\<open>err.message\<close>.\<close>

definition onError :: "nat \<Rightarrow> string \<Rightarrow> tracker \<Rightarrow> tracker" where
  "onError rid m s =
     (let s1 = cleanup rid s
      in if destroyed s1 then s1
         else emit (EmitWarning (Error (if m \<noteq> [] then m @ '' ('' @ announceUrl s1 @ '')'' else m))) s1)"

text \<open>\<^verbatim>\<open>UDPTracker.prototype.destroy\<close> (lines 49-80).\<close>

definition UDPTracker_destroy :: "nat \<Rightarrow> tracker \<Rightarrow> tracker" where
  "UDPTracker_destroy cb s =
     (if destroyed s then s\<lparr>called := called s @ [cb]\<rparr>
      else (let s1 = s\<lparr>destroyed := True\<rparr>;
                s2 = s1\<lparr>interval := None\<rparr>
            in if cleanupFns s2 = [] then destroyCleanup cb s2
               else s2\<lparr>destroyTimeout := Some cb, maybeDestroyCleanup := Some cb\<rparr>))"

subsection \<open>Requests\<close>

text \<open>
  \<^verbatim>\<open>send\<close> (lines 217-222): \<^verbatim>\<open>socket.send\<close> on a null socket is a TypeError.
\<close>

definition send :: "nat \<Rightarrow> buffer \<Rightarrow> tracker \<Rightarrow> tracker option" where
  "send rid message s =
     (case request_of s rid of
        None \<Rightarrow> None
      | Some r \<Rightarrow> if socket r then Some (s\<lparr>sent := sent s @ [(rid, message)]\<rparr>) else None)"

text \<open>The message of lines 99-103.\<close>

definition connectMessage :: "32 word \<Rightarrow> buffer option" where
  "connectMessage tid = do {
     action \<leftarrow> toUInt32 ACTIONS_CONNECT;
     Some (CONNECTION_ID @ action @ tidBytes tid)
   }"

text \<open>The message of lines 227-241, in the order in which the elements are evaluated.\<close>

definition announceMessage :: "buffer \<Rightarrow> 32 word \<Rightarrow> client \<Rightarrow> opts \<Rightarrow> buffer option" where
  "announceMessage connectionId tid c opts = do {
     action \<leftarrow> toUInt32 ACTIONS_ANNOUNCE;
     downloaded \<leftarrow> toUInt64 (opts_downloaded opts);
     left \<leftarrow> (case opts_left opts of
                Some n \<Rightarrow> toUInt64 n
              | None \<Rightarrow> Some [0xFF, 0xFF, 0xFF, 0xFF, 0xFF, 0xFF, 0xFF, 0xFF]);
     uploaded \<leftarrow> toUInt64 (opts_uploaded opts);
     ev \<leftarrow> toUInt32 (EVENTS_or_0 (opts_event opts));
     ip \<leftarrow> toUInt32 0;
     key \<leftarrow> toUInt32 0;
     numwant \<leftarrow> toUInt32 (opts_numwant opts);
     port \<leftarrow> toUInt16 (client_port c);
     Some (connectionId @ action @ tidBytes tid @ client_infoHashBuffer c
           @ client_peerIdBuffer c @ downloaded @ left @ uploaded @ ev @ ip @ key
           @ numwant @ port)
   }"

text \<open>
  The message of lines 247-256. An empty array is truthy, so it is what
  \<^verbatim>\<open>Buffer.concat\<close> gets as an element, which is a TypeError.
\<close>

definition scrapeMessage :: "buffer \<Rightarrow> 32 word \<Rightarrow> client \<Rightarrow> opts \<Rightarrow> buffer option" where
  "scrapeMessage connectionId tid c opts = do {
     infoHash \<leftarrow> (case opts_infoHash opts of
                    BufferArray hs \<Rightarrow> if length hs > 0 then Some (concat hs) else None
                  | OneBuffer h \<Rightarrow> Some h
                  | NoInfoHash \<Rightarrow> Some (client_infoHashBuffer c));
     action \<leftarrow> toUInt32 ACTIONS_SCRAPE;
     Some (connectionId @ action @ tidBytes tid @ infoHash)
   }"

text \<open>
  The inner \<^verbatim>\<open>announce\<close> (lines 224-242) and \<^verbatim>\<open>scrape\<close> (lines 244-257) of request
  \<open>rid\<close>; \<open>newTid\<close> is what \<^verbatim>\<open>genTransactionId\<close> returns.
\<close>

definition announce :: "nat \<Rightarrow> buffer \<Rightarrow> opts \<Rightarrow> 32 word \<Rightarrow> tracker \<Rightarrow> tracker option" where
  "announce rid connectionId opts newTid s =
     (case request_of s rid of
        None \<Rightarrow> Some s
      | Some r \<Rightarrow> do {
          let s1 = setRequest rid (r\<lparr>transactionId := newTid\<rparr>) s;
          message \<leftarrow> announceMessage connectionId newTid (client s1) opts;
          send rid message s1
        })"

definition scrape :: "nat \<Rightarrow> buffer \<Rightarrow> 32 word \<Rightarrow> tracker \<Rightarrow> tracker option" where
  "scrape rid connectionId newTid s =
     (case request_of s rid of
        None \<Rightarrow> Some s
      | Some r \<Rightarrow> do {
          let s1 = setRequest rid (r\<lparr>transactionId := newTid\<rparr>) s;
          message \<leftarrow> scrapeMessage connectionId newTid (client s1) (req_opts r);
          send rid message s1
        })"

text \<open>
  \<^verbatim>\<open>UDPTracker.prototype._request\<close> (lines 82-106): the new request gets the next
  index, its timeout is armed, its \<^verbatim>\<open>cleanup\<close> pushed, and the connect message sent;
  \<open>tid\<close> is what \<^verbatim>\<open>genTransactionId\<close> returns. The options object is always
  given, and the host and port a datagram goes to (lines 85 and 218-221) are left out:
  the log keeps the bytes and the request that sent them.
\<close>

definition UDPTracker_request :: "opts \<Rightarrow> 32 word \<Rightarrow> tracker \<Rightarrow> tracker option" where
  "UDPTracker_request opts tid s =
     (let rid = length (requests s);
          r = \<lparr>req_opts = opts, transactionId = tid, timeout = True, socket = True\<rparr>;
          s1 = s\<lparr>requests := requests s @ [r]\<rparr>;
          s2 = s1\<lparr>cleanupFns := cleanupFns s1 @ [rid]\<rparr>
      in do {
        message \<leftarrow> connectMessage tid;
        send rid message s2
      })"

text \<open>\<^verbatim>\<open>UDPTracker.prototype.announce\<close> and \<^verbatim>\<open>scrape\<close> (lines 36-47).\<close>

definition UDPTracker_announce :: "opts \<Rightarrow> 32 word \<Rightarrow> tracker \<Rightarrow> tracker option" where
  "UDPTracker_announce opts tid s =
     (if destroyed s then Some s else UDPTracker_request opts tid s)"

definition UDPTracker_scrape :: "opts \<Rightarrow> 32 word \<Rightarrow> tracker \<Rightarrow> tracker option" where
  "UDPTracker_scrape opts tid s =
     (if destroyed s then Some s
      else UDPTracker_request (opts\<lparr>opts_scrape := True\<rparr>) tid s)"

subsection \<open>The handlers of a request\<close>

text \<open>
  The timeout callback (lines 89-94). An undefined \<^verbatim>\<open>opts.event\<close> reads
  \<^verbatim>\<open>undefined\<close> in the message.
\<close>

definition eventText :: "string option \<Rightarrow> string" where
  "eventText ev = (case ev of None \<Rightarrow> ''undefined'' | Some e \<Rightarrow> e)"

definition onTimeout :: "nat \<Rightarrow> tracker \<Rightarrow> tracker" where
  "onTimeout rid s =
     (case request_of s rid of
        None \<Rightarrow> s
      | Some r \<Rightarrow>
          (let s1 = (if opts_event (req_opts r) = Some ''stopped'' then cleanup rid s
                     else onError rid (''tracker request timed out (''
                            @ eventText (opts_event (req_opts r)) @ '')'') s)
           in case request_of s1 rid of
                None \<Rightarrow> s1
              | Some r1 \<Rightarrow> setRequest rid (r1\<lparr>timeout := False\<rparr>) s1))"

text \<open>Case 0 of \<^verbatim>\<open>onSocketMessage\<close> (lines 141-150).\<close>

definition onHandshake :: "nat \<Rightarrow> request \<Rightarrow> buffer \<Rightarrow> 32 word \<Rightarrow> tracker \<Rightarrow> tracker option" where
  "onHandshake rid r msg newTid s =
     (if length msg < 16 then Some (onError rid ''invalid udp handshake'' s)
      else if opts_scrape (req_opts r) then scrape rid (slice 8 16 msg) newTid s
      else announce rid (slice 8 16 msg) (req_opts r) newTid s)"

text \<open>Case 1 (lines 152-177).\<close>

definition onAnnounceReply :: "nat \<Rightarrow> buffer \<Rightarrow> tracker \<Rightarrow> tracker option" where
  "onAnnounceReply rid msg s =
     (let s1 = cleanup rid s
      in if destroyed s1 then Some s1
         else if length msg < 20 then Some (onError rid ''invalid announce message'' s1)
         else do {
           interval \<leftarrow> readUInt32BE msg 8;
           let s2 = (if interval \<noteq> 0 then setInterval (interval * 1000) s1 else s1);
           complete \<leftarrow> readUInt32BE msg 16;
           incomplete \<leftarrow> readUInt32BE msg 12;
           let s3 = emit (EmitUpdate (announceUrl s2) complete incomplete) s2;
           (case compact2string_multi (drop 20 msg) of
              Inl e \<Rightarrow> Some (emit (EmitWarning e) s3)
            | Inr addrs \<Rightarrow> Some (foldl (\<lambda>t addr. emit (EmitPeer addr) t) s3 addrs))
         })"

text \<open>
  Case 2 (lines 179-200). \<^verbatim>\<open>infoHashes[i]\<close> beyond the array is undefined; the hex
  text of an empty Buffer and the text of an empty array are the empty string, which
  is falsy.
\<close>

definition scrapeInfoHashes :: "client \<Rightarrow> opts \<Rightarrow> string list" where
  "scrapeInfoHashes c opts =
     (case opts_infoHash opts of
        BufferArray hs \<Rightarrow> if length hs > 0 then map toHex hs else [client_infoHash c]
      | OneBuffer h \<Rightarrow> [if toHex h \<noteq> [] then toHex h else client_infoHash c]
      | NoInfoHash \<Rightarrow> [client_infoHash c])"

definition element :: "'a list \<Rightarrow> nat \<Rightarrow> 'a option" where
  "element xs i = (if i < length xs then Some (xs ! i) else None)"

function scrapeLoop :: "string list \<Rightarrow> buffer \<Rightarrow> nat \<Rightarrow> nat \<Rightarrow> tracker \<Rightarrow> tracker option" where
  "scrapeLoop infoHashes msg i len s =
     (if i < len
      then do {
        complete \<leftarrow> readUInt32BE msg (8 + i * 12);
        downloaded \<leftarrow> readUInt32BE msg (12 + i * 12);
        incomplete \<leftarrow> readUInt32BE msg (16 + i * 12);
        scrapeLoop infoHashes msg (i + 1) len
          (emit (EmitScrape (announceUrl s) (element infoHashes i) complete downloaded incomplete) s)
      }
      else Some s)"
  by pat_completeness auto
termination
  by (relation "measure (\<lambda>(infoHashes, msg, i, len, s). len - i)") auto

definition onScrapeReply :: "nat \<Rightarrow> request \<Rightarrow> buffer \<Rightarrow> tracker \<Rightarrow> tracker option" where
  "onScrapeReply rid r msg s =
     (let s1 = cleanup rid s
      in if destroyed s1 then Some s1
         else if length msg < 20 \<or> (length msg - 8) mod 12 \<noteq> 0
         then Some (onError rid ''invalid scrape message'' s1)
         else scrapeLoop (scrapeInfoHashes (client s1) (req_opts r)) msg 0
                ((length msg - 8) div 12) s1)"

text \<open>Case 3 (lines 202-209).\<close>

definition onErrorReply :: "nat \<Rightarrow> buffer \<Rightarrow> tracker \<Rightarrow> tracker option" where
  "onErrorReply rid msg s =
     (let s1 = cleanup rid s
      in if destroyed s1 then Some s1
         else if length msg < 8 then Some (onError rid ''invalid error message'' s1)
         else Some (emit (EmitWarning (ErrorOfBuffer (drop 8 msg))) s1))"

text \<open>
  \<^verbatim>\<open>onSocketMessage\<close> (lines 133-215) of request \<open>rid\<close>; \<open>newTid\<close> is what
  \<^verbatim>\<open>genTransactionId\<close> returns if the handler calls it.
\<close>

definition onSocketMessage :: "nat \<Rightarrow> buffer \<Rightarrow> 32 word \<Rightarrow> tracker \<Rightarrow> tracker option" where
  "onSocketMessage rid msg newTid s =
     (case request_of s rid of
        None \<Rightarrow> Some s
      | Some r \<Rightarrow>
          if length msg < 8 then Some (onError rid ''tracker sent invalid transaction id'' s)
          else do {
            tid \<leftarrow> readUInt32BE msg 4;
            if tid \<noteq> unat (transactionId r)
            then Some (onError rid ''tracker sent invalid transaction id'' s)
            else do {
              action \<leftarrow> readUInt32BE msg 0;
              if action = 0 then onHandshake rid r msg newTid s
              else if action = 1 then onAnnounceReply rid msg s
              else if action = 2 then onScrapeReply rid r msg s
              else if action = 3 then onErrorReply rid msg s
              else Some (onError rid ''tracker sent invalid action'' s)
            }
          })"

subsection \<open>The event loop\<close>

text \<open>
  What can happen to a tracker: a call of its three methods, and the callbacks Node
  runs. A timer runs its callback only while it is armed, and a socket calls the
  listeners of a request only until \<^verbatim>\<open>cleanup\<close> has removed them.
\<close>

datatype stimulus =
    Announce opts "32 word"
  | Scrape opts "32 word"
  | Destroy nat
  | RequestTimeout nat
  | SocketMessage nat buffer "32 word"
  | SocketError nat string
  | DestroyTimeout

definition listening :: "tracker \<Rightarrow> nat \<Rightarrow> bool" where
  "listening s rid = (case request_of s rid of None \<Rightarrow> False | Some r \<Rightarrow> socket r)"

definition armed :: "tracker \<Rightarrow> nat \<Rightarrow> bool" where
  "armed s rid = (case request_of s rid of None \<Rightarrow> False | Some r \<Rightarrow> timeout r)"

fun fire :: "stimulus \<Rightarrow> tracker \<Rightarrow> tracker option" where
  "fire (Announce opts tid) s = UDPTracker_announce opts tid s"
| "fire (Scrape opts tid) s = UDPTracker_scrape opts tid s"
| "fire (Destroy cb) s = Some (UDPTracker_destroy cb s)"
| "fire (RequestTimeout rid) s = (if armed s rid then Some (onTimeout rid s) else Some s)"
| "fire (SocketMessage rid msg newTid) s =
     (if listening s rid then onSocketMessage rid msg newTid s else Some s)"
| "fire (SocketError rid m) s = (if listening s rid then Some (onError rid m s) else Some s)"
| "fire DestroyTimeout s =
     (case destroyTimeout s of None \<Rightarrow> Some s | Some cb \<Rightarrow> Some (destroyCleanup cb s))"

fun run :: "stimulus list \<Rightarrow> tracker \<Rightarrow> tracker option" where
  "run [] s = Some s"
| "run (e # es) s = (case fire e s of None \<Rightarrow> None | Some s' \<Rightarrow> run es s')"

text \<open>
  The words of the spec, for comparison: the big-endian 32-bit word at an offset of
  a message.
\<close>

definition uint32At :: "buffer \<Rightarrow> nat \<Rightarrow> nat" where
  "uint32At buf off =
     unat (buf ! off) * 16777216 + unat (buf ! (off + 1)) * 65536
     + unat (buf ! (off + 2)) * 256 + unat (buf ! (off + 3))"

subsection \<open>Well-formed trackers\<close>

text \<open>
  What holds of every tracker the event loop can reach (lemma \<open>wellFormed_run\<close>
  below): \<open>cleanupFns\<close> holds each request once, and exactly those whose socket is
  open; an armed timeout belongs to an open request; the watcher and the timer of
  \<^verbatim>\<open>destroy\<close> are set together, only on a destroyed tracker with a request left;
  a destroyed tracker without them has no request left; a destroyed tracker has no
  re-announce timer.
\<close>

definition wellFormed :: "tracker \<Rightarrow> bool" where
  "wellFormed s \<longleftrightarrow>
     distinct (cleanupFns s) \<and>
     list_all (listening s) (cleanupFns s) \<and>
     list_all (\<lambda>rid. (listening s rid \<longrightarrow> rid \<in> set (cleanupFns s))
                     \<and> (armed s rid \<longrightarrow> listening s rid)) [0..<length (requests s)] \<and>
     maybeDestroyCleanup s = destroyTimeout s \<and>
     (maybeDestroyCleanup s \<noteq> None \<longrightarrow> destroyed s \<and> cleanupFns s \<noteq> []) \<and>
     (destroyed s \<and> maybeDestroyCleanup s = None \<longrightarrow> cleanupFns s = []) \<and>
     (destroyed s \<longrightarrow> interval s = None)"

text \<open>
  A request is cleaned up: its timeout is not armed, its socket is closed and its
  listeners removed, and its \<^verbatim>\<open>cleanup\<close> is not in \<open>cleanupFns\<close>.
\<close>

definition cleanedUp :: "tracker \<Rightarrow> nat \<Rightarrow> bool" where
  "cleanedUp s rid \<longleftrightarrow> \<not> armed s rid \<and> \<not> listening s rid \<and> rid \<notin> set (cleanupFns s)"

subsection \<open>The watcher of destroy\<close>

text \<open>
  What one handler may do to the pending \<^verbatim>\<open>destroy\<close>: leave it as it is, or complete
  it, which calls its callback once and clears the watcher.
\<close>

definition watcherStep :: "tracker \<Rightarrow> tracker \<Rightarrow> bool" where
  "watcherStep s s' \<longleftrightarrow>
     (case maybeDestroyCleanup s of
        None \<Rightarrow> maybeDestroyCleanup s' = None \<and> called s' = called s
      | Some cb \<Rightarrow>
          (maybeDestroyCleanup s' = Some cb \<and> called s' = called s)
          \<or> (maybeDestroyCleanup s' = None \<and> called s' = called s @ [cb]))"



text \<open>
  A step in which request \<open>rid\<close> sends nothing, no socket opens and no request is
  made.
\<close>

definition quiet :: "nat \<Rightarrow> tracker \<Rightarrow> tracker \<Rightarrow> bool" where
  "quiet rid s t \<longleftrightarrow>
     length (requests t) = length (requests s)
     \<and> (\<forall>x. listening t x \<longrightarrow> listening s x)
     \<and> filter (\<lambda>p. fst p = rid) (sent t) = filter (\<lambda>p. fst p = rid) (sent s)"

subsection \<open>Example trackers\<close>

definition exampleClient :: client where
  "exampleClient =
     \<lparr>client_infoHash = ''aaaaaaaaaaaaaaaaaaaaaaaaaaaaaaaaaaaaaaaa'',
      client_infoHashBuffer = replicate 20 0xAA,
      client_peerIdBuffer = replicate 20 0x2D,
      client_port = 6881\<rparr>"

definition exampleOpts :: opts where
  "exampleOpts =
     \<lparr>opts_event = Some ''started'', opts_scrape = False, opts_infoHash = NoInfoHash,
      opts_downloaded = Number 0, opts_left = None, opts_uploaded = Number 5000000000,
      opts_numwant = 50\<rparr>"

definition exampleUrl :: string where
  "exampleUrl = ''udp://tracker.example:6969''"

text \<open>
  The tracker after \<^verbatim>\<open>announce(exampleOpts)\<close> with transaction id 1 on a new tracker
  (lemma \<open>run_awaitingReply\<close>), and the same tracker after \<^verbatim>\<open>destroy\<close> with callback 7.
\<close>

definition awaitingReply :: tracker where
  "awaitingReply =
     \<lparr>client = exampleClient, announceUrl = exampleUrl, destroyed = False, interval = None,
      cleanupFns = [0], maybeDestroyCleanup = None, destroyTimeout = None,
      requests = [\<lparr>req_opts = exampleOpts, transactionId = 1, timeout = True, socket = True\<rparr>],
      emitted = [],
      sent = [(0, [0x00, 0x00, 0x04, 0x17, 0x27, 0x10, 0x19, 0x80, 0, 0, 0, 0, 0, 0, 0, 1])],
      called = []\<rparr>"

text \<open>
  The tracker after a \<^verbatim>\<open>stopped\<close> announce, after an announce with \<open>2^53\<close> bytes
  downloaded given as a number, and after a scrape of three info-hashes.
\<close>

definition awaitingStopped :: tracker where
  "awaitingStopped =
     awaitingReply\<lparr>requests :=
       [\<lparr>req_opts = exampleOpts\<lparr>opts_event := Some ''stopped''\<rparr>, transactionId = 1,
         timeout = True, socket = True\<rparr>]\<rparr>"


definition scrapeOpts :: opts where
  "scrapeOpts =
     exampleOpts\<lparr>opts_scrape := True,
       opts_infoHash := BufferArray [replicate 20 0x11, replicate 20 0x22, replicate 20 0x33]\<rparr>"

definition awaitingScrape :: tracker where
  "awaitingScrape =
     awaitingReply\<lparr>requests :=
       [\<lparr>req_opts = scrapeOpts, transactionId = 1, timeout = True, socket = True\<rparr>]\<rparr>"

text \<open>
  Replies to transaction 1: a connect reply; an announce reply with interval 1800,
  3 leechers, 9 seeders and one peer; the same with a peer list of 5 bytes; a scrape reply with three
  records; an error reply with the text \<^verbatim>\<open>bad\<close>.
\<close>

definition announceReply :: buffer where
  "announceReply =
     [0, 0, 0, 1,  0, 0, 0, 1,  0, 0, 0x07, 0x08,  0, 0, 0, 3,  0, 0, 0, 9,
      10, 0, 0, 1, 0x1A, 0xE1]"

definition badPeersReply :: buffer where
  "badPeersReply =
     [0, 0, 0, 1,  0, 0, 0, 1,  0, 0, 0x07, 0x08,  0, 0, 0, 3,  0, 0, 0, 9,
      10, 0, 0, 1, 0x1A]"

definition scrapeReply :: buffer where
  "scrapeReply =
     [0, 0, 0, 2,  0, 0, 0, 1,
      0, 0, 0, 1,  0, 0, 0, 2,  0, 0, 0, 3,
      0, 0, 0, 4,  0, 0, 0, 5,  0, 0, 0, 6,
      0, 0, 0, 7,  0, 0, 0, 8,  0, 0, 0, 9]"

definition connectReply :: buffer where
  "connectReply = [0, 0, 0, 0,  0, 0, 0, 1,  1, 2, 3, 4, 5, 6, 7, 8]"

definition errorReply :: buffer where
  "errorReply = [0, 0, 0, 3,  0, 0, 0, 1,  0x62, 0x61, 0x64]"

definition destroying :: tracker where
  "destroying = UDPTracker_destroy 7 awaitingReply"

section \<open>Properties\<close>

declare natBytes.simps [simp del] unshiftZeros.simps [simp del] scrapeLoop.simps [simp del]

subsection \<open>Encoders\<close>





lemma bigEndian_4: "bigEndian 4 n = [of_nat (n div 16777216), of_nat (n div 65536), of_nat (n div 256), of_nat n]"
proof -
  have "(4::nat) = Suc (Suc (Suc (Suc 0)))" by simp
  then have "bigEndian 4 n = bigEndian (Suc (Suc (Suc (Suc 0)))) n" by (rule arg_cong)
  then show ?thesis by (simp add: div_mult2_eq [symmetric])
qed

lemma toUInt32_bigEndian: "n \<le> 4294967295 \<Longrightarrow> toUInt32 n = Some (bigEndian 4 n)"
  by (simp add: toUInt32_def bigEndian_4)

lemma bigEndian_append: "bigEndian (j + k) n = bigEndian j (n div 256 ^ k) @ bigEndian k n"
  by (induction k arbitrary: n) (simp_all add: div_mult2_eq)




lemma bigEndian_8_4: "bigEndian 8 n = bigEndian 4 (n div 4294967296) @ bigEndian 4 n"
  using bigEndian_append [of 4 4 n] by simp



lemma ucast_drop_bit_byte: "(ucast (drop_bit k (w :: 32 word)) :: byte) = of_nat (unat w div 2 ^ k)"
proof -
  have "unat (drop_bit k w) = drop_bit k (unat w)" by (rule unat_drop_bit_eq)
  also have "\<dots> = unat w div 2 ^ k" by (rule drop_bit_eq_div)
  finally have "of_nat (unat (drop_bit k w)) = (of_nat (unat w div 2 ^ k) :: byte)" by simp
  then show ?thesis by simp
qed

lemma tidBytes_bigEndian: "tidBytes w = bigEndian 4 (unat w)"
  using ucast_drop_bit_byte [of 24 w] ucast_drop_bit_byte [of 16 w] ucast_drop_bit_byte [of 8 w]
  by (simp add: tidBytes_def bigEndian_4)

lemma send_new_request:
  "send (length (requests s)) m
     (s\<lparr>requests := requests s @ [\<lparr>req_opts = opts, transactionId = tid, timeout = True, socket = True\<rparr>],
        cleanupFns := c\<rparr>)
   = Some (s\<lparr>requests := requests s @ [\<lparr>req_opts = opts, transactionId = tid, timeout = True, socket = True\<rparr>],
        cleanupFns := c, sent := sent s @ [(length (requests s), m)]\<rparr>)"
  by (simp add: send_def request_of_def)

subsection \<open>The connect message\<close>

text \<open>
  Claim C5, as amended. The CONNECT message sent when a request starts is the fixed
  8-byte connection-id constant 0x0000041727101980, followed by action 0 as a 4-byte
  big-endian integer, followed by the 4 bytes of the transaction id of the request:
  16 bytes in all.
\<close>

theorem connect_message_layout:
  "CONNECTION_ID = bigEndian 8 0x41727101980 \<and> length CONNECTION_ID = 8
   \<and> length (tidBytes tid) = 4
   \<and> connectMessage tid = Some (CONNECTION_ID @ bigEndian 4 0 @ tidBytes tid)
   \<and> (\<exists>s'. UDPTracker_request opts tid s = Some s'
          \<and> sent s' = sent s @ [(length (requests s), CONNECTION_ID @ bigEndian 4 0 @ tidBytes tid)])"
proof -
  have c: "connectMessage tid = Some (CONNECTION_ID @ bigEndian 4 0 @ tidBytes tid)"
    by (simp add: connectMessage_def ACTIONS_CONNECT_def toUInt32_bigEndian)
  have "CONNECTION_ID = bigEndian 8 0x41727101980"
    by (simp add: CONNECTION_ID_def bigEndian_8_4 bigEndian_4)
  moreover have "length CONNECTION_ID = 8" by (simp add: CONNECTION_ID_def)
  moreover have "length (tidBytes tid) = 4" by (simp add: tidBytes_def)
  moreover have "\<exists>s'. UDPTracker_request opts tid s = Some s'
          \<and> sent s' = sent s @ [(length (requests s), CONNECTION_ID @ bigEndian 4 0 @ tidBytes tid)]"
    by (simp add: UDPTracker_request_def Let_def c send_new_request)
  ultimately show ?thesis using c by simp
qed

text \<open>
  Claim C5 as stated has a 16-byte constant, which makes a message of 24 bytes. The
  constant has 8 bytes and the message 16.
\<close>

theorem connect_message_counterexample:
  "length CONNECTION_ID \<noteq> 16 \<and> map_option length (connectMessage 1) \<noteq> Some (16 + 4 + 4)"
  by (simp add: CONNECTION_ID_def connectMessage_def ACTIONS_CONNECT_def toUInt32_def tidBytes_def)


subsection \<open>The array of cleanup closures\<close>

lemma indexOf_notin: "x \<notin> set xs \<Longrightarrow> indexOf xs x = - 1"
  by (induction xs) (auto simp: Let_def)

lemma indexOf_in:
  "x \<in> set xs \<Longrightarrow> 0 \<le> indexOf xs x \<and> nat (indexOf xs x) < length xs \<and> xs ! nat (indexOf xs x) = x"
proof (induction xs)
  case Nil
  then show ?case by simp
next
  case (Cons y ys)
  show ?case
  proof (cases "y = x")
    case True
    then show ?thesis by simp
  next
    case False
    with Cons.prems have "x \<in> set ys" by simp
    from Cons.IH [OF this] False show ?thesis
      by (auto simp: Let_def nat_add_distrib)
  qed
qed

lemma arrayRemove_notin: "x \<notin> set xs \<Longrightarrow> arrayRemove xs (indexOf xs x) = xs"
  by (simp add: indexOf_notin arrayRemove_def)

lemma arrayRemove_snoc:
  "0 \<le> i \<Longrightarrow> nat i \<le> length ys \<Longrightarrow>
     arrayRemove (ys @ [l]) i = (if nat i < length ys then ys[nat i := l] else ys)"
  by (auto simp: arrayRemove_def Let_def)

lemma arrayRemove_distinct:
  assumes "distinct xs"
  shows "distinct (arrayRemove xs (indexOf xs x)) \<and>
         set (arrayRemove xs (indexOf xs x)) = set xs - {x}"
proof (cases "x \<in> set xs")
  case False
  with assms show ?thesis by (simp add: arrayRemove_notin)
next
  case True
  then have "xs \<noteq> []" by auto
  then obtain ys l where xs: "xs = ys @ [l]"
    by (metis append_butlast_last_id)
  define i where "i = nat (indexOf xs x)"
  from indexOf_in [OF True] have i: "0 \<le> indexOf xs x" "i < length xs" "xs ! i = x"
    by (simp_all add: i_def)
  from assms xs have d: "distinct ys" "l \<notin> set ys" by simp_all
  show ?thesis
  proof (cases "i < length ys")
    case True
    with i xs have x: "ys ! i = x" by (simp add: nth_append)
    with d True have "x \<noteq> l" by auto
    have r: "arrayRemove xs (indexOf xs x) = ys[i := l]"
      using arrayRemove_snoc [of "indexOf xs x" ys l] i True xs by (simp add: i_def)
    have "distinct (ys[i := l])"
      using d by (intro distinct_list_update) auto
    moreover have "set (ys[i := l]) = insert l (set ys - {x})"
      using set_update_distinct [OF d(1) True, of l] x by simp
    ultimately show ?thesis
      using r xs d \<open>x \<noteq> l\<close> by auto
  next
    case False
    with i xs have il: "i = length ys" by simp
    with i xs have "x = l" by (simp add: nth_append)
    have r: "arrayRemove xs (indexOf xs x) = ys"
      using arrayRemove_snoc [of "indexOf xs x" ys l] i il xs by (simp add: i_def)
    show ?thesis
      using r xs d \<open>x = l\<close> by auto
  qed
qed


subsection \<open>Cleanup\<close>

lemma listening_less: "listening s rid \<Longrightarrow> rid < length (requests s)"
  by (simp add: listening_def request_of_def split: if_splits)

lemma armed_less: "armed s rid \<Longrightarrow> rid < length (requests s)"
  by (simp add: armed_def request_of_def split: if_splits)

lemma wellFormed_iff:
  "wellFormed s \<longleftrightarrow>
     distinct (cleanupFns s) \<and>
     (\<forall>rid. listening s rid \<longleftrightarrow> rid \<in> set (cleanupFns s)) \<and>
     (\<forall>rid. armed s rid \<longrightarrow> listening s rid) \<and>
     maybeDestroyCleanup s = destroyTimeout s \<and>
     (maybeDestroyCleanup s \<noteq> None \<longrightarrow> destroyed s \<and> cleanupFns s \<noteq> []) \<and>
     (destroyed s \<and> maybeDestroyCleanup s = None \<longrightarrow> cleanupFns s = []) \<and>
     (destroyed s \<longrightarrow> interval s = None)"
proof -
  have 1: "listening s rid \<Longrightarrow> rid \<in> set [0..<length (requests s)]" for rid
    using listening_less [of s rid] by simp
  have 2: "armed s rid \<Longrightarrow> rid \<in> set [0..<length (requests s)]" for rid
    using armed_less [of s rid] by simp
  show ?thesis
    unfolding wellFormed_def list_all_iff using 1 2 by blast
qed

text \<open>What \<open>cleanupLocal\<close> does to each part of the state.\<close>

lemma cleanupLocal_fields [simp]:
  "emitted (cleanupLocal rid s) = emitted s"
  "sent (cleanupLocal rid s) = sent s"
  "called (cleanupLocal rid s) = called s"
  "destroyed (cleanupLocal rid s) = destroyed s"
  "interval (cleanupLocal rid s) = interval s"
  "announceUrl (cleanupLocal rid s) = announceUrl s"
  "client (cleanupLocal rid s) = client s"
  "maybeDestroyCleanup (cleanupLocal rid s) = maybeDestroyCleanup s"
  "destroyTimeout (cleanupLocal rid s) = destroyTimeout s"
  "length (requests (cleanupLocal rid s)) = length (requests s)"
  by (simp_all add: cleanupLocal_def setRequest_def Let_def split: option.splits)

lemma request_of_cleanupLocal:
  "request_of (cleanupLocal rid s) x =
     (if x = rid then map_option (\<lambda>r. r\<lparr>timeout := False, socket := False\<rparr>) (request_of s rid)
      else request_of s x)"
  by (auto simp: cleanupLocal_def setRequest_def request_of_def Let_def split: option.splits)

lemma listening_cleanupLocal [simp]:
  "listening (cleanupLocal rid s) x \<longleftrightarrow> listening s x \<and> x \<noteq> rid"
  by (auto simp: listening_def request_of_cleanupLocal split: option.splits)

lemma armed_cleanupLocal [simp]:
  "armed (cleanupLocal rid s) x \<longleftrightarrow> armed s x \<and> x \<noteq> rid"
  by (auto simp: armed_def request_of_cleanupLocal split: option.splits)

lemma cleanupFns_cleanupLocal:
  "cleanupFns (cleanupLocal rid s) =
     (if listening s rid then arrayRemove (cleanupFns s) (indexOf (cleanupFns s) rid)
      else cleanupFns s)"
  by (auto simp: cleanupLocal_def setRequest_def listening_def Let_def split: option.splits)


lemma cleanupLocal_wellFormed_part:
  assumes "distinct (cleanupFns s)" and "\<forall>x. listening s x \<longleftrightarrow> x \<in> set (cleanupFns s)"
  shows "distinct (cleanupFns (cleanupLocal rid s))
         \<and> set (cleanupFns (cleanupLocal rid s)) = set (cleanupFns s) - {rid}"
  using assms arrayRemove_distinct [of "cleanupFns s" rid]
  by (auto simp: cleanupFns_cleanupLocal)

text \<open>The loop of \<open>destroyCleanup\<close>.\<close>

lemma cleanupLoop_fields [simp]:
  "emitted (foldl (\<lambda>t rid. cleanupLocal rid t) s xs) = emitted s"
  "sent (foldl (\<lambda>t rid. cleanupLocal rid t) s xs) = sent s"
  "called (foldl (\<lambda>t rid. cleanupLocal rid t) s xs) = called s"
  "destroyed (foldl (\<lambda>t rid. cleanupLocal rid t) s xs) = destroyed s"
  "interval (foldl (\<lambda>t rid. cleanupLocal rid t) s xs) = interval s"
  "announceUrl (foldl (\<lambda>t rid. cleanupLocal rid t) s xs) = announceUrl s"
  "client (foldl (\<lambda>t rid. cleanupLocal rid t) s xs) = client s"
  "maybeDestroyCleanup (foldl (\<lambda>t rid. cleanupLocal rid t) s xs) = maybeDestroyCleanup s"
  "destroyTimeout (foldl (\<lambda>t rid. cleanupLocal rid t) s xs) = destroyTimeout s"
  "length (requests (foldl (\<lambda>t rid. cleanupLocal rid t) s xs)) = length (requests s)"
  by (induction xs arbitrary: s; simp)+

lemma listening_cleanupLoop [simp]:
  "listening (foldl (\<lambda>t rid. cleanupLocal rid t) s xs) x \<longleftrightarrow> listening s x \<and> x \<notin> set xs"
  by (induction xs arbitrary: s) auto

lemma armed_cleanupLoop [simp]:
  "armed (foldl (\<lambda>t rid. cleanupLocal rid t) s xs) x \<longleftrightarrow> armed s x \<and> x \<notin> set xs"
  by (induction xs arbitrary: s) auto

lemma cleanupLocal_update_fields [simp]:
  "cleanupLocal rid (s\<lparr>destroyTimeout := a\<rparr>) = (cleanupLocal rid s)\<lparr>destroyTimeout := a\<rparr>"
  "cleanupLocal rid (s\<lparr>maybeDestroyCleanup := b\<rparr>) = (cleanupLocal rid s)\<lparr>maybeDestroyCleanup := b\<rparr>"
  by (simp_all add: cleanupLocal_def request_of_def setRequest_def Let_def split: option.splits)

lemma listening_update_fields [simp]:
  "listening (s\<lparr>destroyTimeout := a\<rparr>) = listening s"
  "listening (s\<lparr>maybeDestroyCleanup := b\<rparr>) = listening s"
  "listening (s\<lparr>cleanupFns := c\<rparr>) = listening s"
  "listening (s\<lparr>called := d\<rparr>) = listening s"
  "listening (s\<lparr>emitted := e\<rparr>) = listening s"
  "listening (s\<lparr>sent := f\<rparr>) = listening s"
  "listening (s\<lparr>interval := g\<rparr>) = listening s"
  "listening (s\<lparr>destroyed := h\<rparr>) = listening s"
  by (simp_all add: listening_def request_of_def fun_eq_iff)

lemma armed_update_fields [simp]:
  "armed (s\<lparr>destroyTimeout := a\<rparr>) = armed s"
  "armed (s\<lparr>maybeDestroyCleanup := b\<rparr>) = armed s"
  "armed (s\<lparr>cleanupFns := c\<rparr>) = armed s"
  "armed (s\<lparr>called := d\<rparr>) = armed s"
  "armed (s\<lparr>emitted := e\<rparr>) = armed s"
  "armed (s\<lparr>sent := f\<rparr>) = armed s"
  "armed (s\<lparr>interval := g\<rparr>) = armed s"
  "armed (s\<lparr>destroyed := h\<rparr>) = armed s"
  by (simp_all add: armed_def request_of_def fun_eq_iff)

text \<open>What \<open>destroyCleanup\<close> does to each part of the state.\<close>

lemma destroyCleanup_fields [simp]:
  "emitted (destroyCleanup cb s) = emitted s"
  "sent (destroyCleanup cb s) = sent s"
  "called (destroyCleanup cb s) = called s @ [cb]"
  "destroyed (destroyCleanup cb s) = destroyed s"
  "interval (destroyCleanup cb s) = interval s"
  "announceUrl (destroyCleanup cb s) = announceUrl s"
  "client (destroyCleanup cb s) = client s"
  "maybeDestroyCleanup (destroyCleanup cb s) = None"
  "destroyTimeout (destroyCleanup cb s) = None"
  "cleanupFns (destroyCleanup cb s) = []"
  "length (requests (destroyCleanup cb s)) = length (requests s)"
  by (simp_all add: destroyCleanup_def Let_def)

lemma listening_destroyCleanup [simp]:
  "listening (destroyCleanup cb s) x \<longleftrightarrow> listening s x \<and> x \<notin> set (cleanupFns s)"
  by (simp add: destroyCleanup_def Let_def)

lemma armed_destroyCleanup [simp]:
  "armed (destroyCleanup cb s) x \<longleftrightarrow> armed s x \<and> x \<notin> set (cleanupFns s)"
  by (simp add: destroyCleanup_def Let_def)

lemma destroyCleanup_wellFormed:
  assumes "\<forall>x. listening s x \<longrightarrow> x \<in> set (cleanupFns s)"
    and "\<forall>x. armed s x \<longrightarrow> listening s x"
    and "destroyed s \<longrightarrow> interval s = None"
  shows "wellFormed (destroyCleanup cb s)"
  using assms unfolding wellFormed_iff by auto

text \<open>
  In the loop of \<open>destroyCleanup\<close> the whole \<open>cleanup\<close> does what its lines 109-120
  do, since \<open>maybeDestroyCleanup\<close> is null there.
\<close>

lemma cleanup_no_watcher: "maybeDestroyCleanup s = None \<Longrightarrow> cleanup rid s = cleanupLocal rid s"
  by (simp add: cleanup_def Let_def)

lemma destroyCleanup_loop:
  "maybeDestroyCleanup s = None \<Longrightarrow>
     foldl (\<lambda>t rid. cleanup rid t) s xs = foldl (\<lambda>t rid. cleanupLocal rid t) s xs"
  by (induction xs arbitrary: s) (simp_all add: cleanup_no_watcher)

text \<open>What \<open>cleanup\<close> does to each part of the state.\<close>

lemma cleanup_fields [simp]:
  "emitted (cleanup rid s) = emitted s"
  "sent (cleanup rid s) = sent s"
  "destroyed (cleanup rid s) = destroyed s"
  "interval (cleanup rid s) = interval s"
  "announceUrl (cleanup rid s) = announceUrl s"
  "client (cleanup rid s) = client s"
  "length (requests (cleanup rid s)) = length (requests s)"
  by (simp_all add: cleanup_def Let_def split: option.splits)

lemma cleanup_closes [simp]:
  "\<not> listening (cleanup rid s) rid" "\<not> armed (cleanup rid s) rid"
  by (simp_all add: cleanup_def Let_def split: option.splits)

lemma cleanup_wellFormed:
  assumes "wellFormed s"
  shows "wellFormed (cleanup rid s) \<and> rid \<notin> set (cleanupFns (cleanup rid s))"
proof -
  let ?s1 = "cleanupLocal rid s"
  from assms have d: "distinct (cleanupFns s)" "\<forall>x. listening s x \<longleftrightarrow> x \<in> set (cleanupFns s)"
    unfolding wellFormed_iff by blast+
  from cleanupLocal_wellFormed_part [OF d, of rid]
  have p: "distinct (cleanupFns ?s1)" "set (cleanupFns ?s1) = set (cleanupFns s) - {rid}"
    by simp_all
  with assms have w: "cleanupFns ?s1 \<noteq> [] \<or> maybeDestroyCleanup s = None \<Longrightarrow> wellFormed ?s1"
    unfolding wellFormed_iff by auto
  show ?thesis
  proof (cases "maybeDestroyCleanup s")
    case None
    with w p show ?thesis by (simp add: cleanup_def Let_def)
  next
    case (Some cb)
    show ?thesis
    proof (cases "cleanupFns ?s1 = []")
      case True
      with Some have c: "cleanup rid s = destroyCleanup cb ?s1"
        by (simp add: cleanup_def Let_def)
      from assms have a: "\<forall>x. armed s x \<longrightarrow> listening s x" "destroyed s \<longrightarrow> interval s = None"
        unfolding wellFormed_iff by blast+
      have "wellFormed (destroyCleanup cb ?s1)"
        by (rule destroyCleanup_wellFormed) (use a d p in auto)
      with c show ?thesis by simp
    next
      case False
      with w p Some show ?thesis by (simp add: cleanup_def Let_def)
    qed
  qed
qed


lemma cleanup_cleanedUp:
  "wellFormed s \<Longrightarrow> cleanedUp (cleanup rid s) rid"
  using cleanup_wellFormed [of s rid] by (simp add: cleanedUp_def)

text \<open>\<open>emit\<close>, \<open>setInterval\<close> and \<open>onError\<close>.\<close>

lemma emit_fields [simp]:
  "emitted (emit e s) = emitted s @ [e]"
  "sent (emit e s) = sent s"
  "called (emit e s) = called s"
  "destroyed (emit e s) = destroyed s"
  "interval (emit e s) = interval s"
  "announceUrl (emit e s) = announceUrl s"
  "client (emit e s) = client s"
  "cleanupFns (emit e s) = cleanupFns s"
  "maybeDestroyCleanup (emit e s) = maybeDestroyCleanup s"
  "destroyTimeout (emit e s) = destroyTimeout s"
  "requests (emit e s) = requests s"
  "listening (emit e s) = listening s"
  "armed (emit e s) = armed s"
  by (simp_all add: emit_def)

lemma emit_wellFormed [simp]: "wellFormed (emit e s) \<longleftrightarrow> wellFormed s"
  by (simp add: wellFormed_def)

lemma emit_cleanedUp [simp]: "cleanedUp (emit e s) rid \<longleftrightarrow> cleanedUp s rid"
  by (simp add: cleanedUp_def)

lemma setInterval_fields [simp]:
  "emitted (setInterval ms s) = emitted s"
  "sent (setInterval ms s) = sent s"
  "called (setInterval ms s) = called s"
  "destroyed (setInterval ms s) = destroyed s"
  "interval (setInterval ms s) = Some ms"
  "announceUrl (setInterval ms s) = announceUrl s"
  "client (setInterval ms s) = client s"
  "cleanupFns (setInterval ms s) = cleanupFns s"
  "maybeDestroyCleanup (setInterval ms s) = maybeDestroyCleanup s"
  "destroyTimeout (setInterval ms s) = destroyTimeout s"
  "requests (setInterval ms s) = requests s"
  "listening (setInterval ms s) = listening s"
  "armed (setInterval ms s) = armed s"
  by (simp_all add: setInterval_def)

lemma setInterval_wellFormed: "\<not> destroyed s \<Longrightarrow> wellFormed s \<Longrightarrow> wellFormed (setInterval ms s)"
  by (auto simp: wellFormed_def)

lemma setInterval_cleanedUp [simp]: "cleanedUp (setInterval ms s) rid \<longleftrightarrow> cleanedUp s rid"
  by (simp add: cleanedUp_def)

lemma onError_fields [simp]:
  "sent (onError rid m s) = sent s"
  "destroyed (onError rid m s) = destroyed s"
  "interval (onError rid m s) = interval s"
  "announceUrl (onError rid m s) = announceUrl s"
  "client (onError rid m s) = client s"
  "length (requests (onError rid m s)) = length (requests s)"
  by (simp_all add: onError_def Let_def)

lemma onError_emitted:
  "emitted (onError rid m s) =
     emitted s @ (if destroyed s then []
                  else [EmitWarning (Error (if m \<noteq> [] then m @ '' ('' @ announceUrl s @ '')'' else m))])"
  by (simp add: onError_def Let_def)

lemma onError_wellFormed:
  "wellFormed s \<Longrightarrow> wellFormed (onError rid m s) \<and> cleanedUp (onError rid m s) rid"
  using cleanup_wellFormed [of s rid] cleanup_cleanedUp [of s rid]
  by (simp add: onError_def Let_def)

lemma readUInt32BE_Some: "off + 4 \<le> length buf \<Longrightarrow> \<exists>v. readUInt32BE buf off = Some v"
  by (simp add: readUInt32BE_def)

lemma readUInt32BE_length: "readUInt32BE buf off = Some v \<Longrightarrow> off + 4 \<le> length buf"
  by (simp add: readUInt32BE_def split: if_splits)

subsection \<open>A datagram with a wrong transaction id\<close>

text \<open>
  Claim C1, as amended. A datagram on the socket of a request that is shorter than 8
  bytes, or whose big-endian word at offset 4 is not the current transaction id of the
  request, aborts the request: the request is cleaned up (timeout cancelled, socket
  closed, \<^verbatim>\<open>cleanup\<close> out of \<open>cleanupFns\<close>) and nothing is sent. On a tracker that
  is not destroyed exactly one warning is emitted, with the message
  \<^verbatim>\<open>tracker sent invalid transaction id\<close> followed by the announce URL in
  parentheses; on a destroyed tracker no warning is emitted.
\<close>

theorem invalid_transaction_id_aborts:
  assumes "wellFormed s" and "request_of s rid = Some r" and "socket r"
    and "length msg < 8 \<or> readUInt32BE msg 4 \<noteq> Some (unat (transactionId r))"
  shows "\<exists>s'. onSocketMessage rid msg newTid s = Some s'
           \<and> emitted s' = emitted s @
                (if destroyed s then []
                 else [EmitWarning (Error (''tracker sent invalid transaction id (''
                                           @ announceUrl s @ '')''))])
           \<and> cleanedUp s' rid \<and> sent s' = sent s"
proof -
  let ?s' = "onError rid ''tracker sent invalid transaction id'' s"
  have "onSocketMessage rid msg newTid s = Some ?s'"
  proof (cases "length msg < 8")
    case True
    with assms(2) show ?thesis by (simp add: onSocketMessage_def)
  next
    case False
    then obtain t where t: "readUInt32BE msg 4 = Some t"
      using readUInt32BE_Some [of 4 msg] by auto
    with assms(4) False have "t \<noteq> unat (transactionId r)" by simp
    with assms(2) False t show ?thesis by (simp add: onSocketMessage_def)
  qed
  moreover from assms(1) have "cleanedUp ?s' rid" by (simp add: onError_wellFormed)
  ultimately show ?thesis by (simp add: onError_emitted)
qed

lemma destroying_eq:
  "destroying = awaitingReply\<lparr>destroyed := True, destroyTimeout := Some 7, maybeDestroyCleanup := Some 7\<rparr>"
  by (simp add: destroying_def UDPTracker_destroy_def awaitingReply_def Let_def)

lemma wellFormed_awaitingReply: "wellFormed awaitingReply"
  by (simp add: wellFormed_def awaitingReply_def listening_def armed_def request_of_def)

lemma wellFormed_destroying: "wellFormed destroying"
  by (simp add: wellFormed_def destroying_eq awaitingReply_def listening_def armed_def request_of_def)

text \<open>A reply to transaction 9 while the request waits for transaction 1.\<close>

theorem invalid_transaction_id_aborts_witness:
  "wellFormed awaitingReply \<and> request_of awaitingReply 0 = Some (requests awaitingReply ! 0)
   \<and> socket (requests awaitingReply ! 0)
   \<and> readUInt32BE [0, 0, 0, 0, 0, 0, 0, 9] 4 \<noteq> Some (unat (transactionId (requests awaitingReply ! 0)))
   \<and> (\<exists>s'. onSocketMessage 0 [0, 0, 0, 0, 0, 0, 0, 9] 2 awaitingReply = Some s'
          \<and> emitted s' = [EmitWarning (Error ''tracker sent invalid transaction id (udp://tracker.example:6969)'')]
          \<and> cleanedUp s' 0 \<and> sent s' = sent awaitingReply)"
proof -
  have 1: "request_of awaitingReply 0 = Some (requests awaitingReply ! 0)"
    by (simp add: request_of_def awaitingReply_def)
  have 2: "socket (requests awaitingReply ! 0)" by (simp add: awaitingReply_def)
  have 3: "length [0, 0, 0, 0, 0, 0, 0, 9 :: byte] < 8
           \<or> readUInt32BE [0, 0, 0, 0, 0, 0, 0, 9] 4 \<noteq> Some (unat (transactionId (requests awaitingReply ! 0)))"
    by (simp add: readUInt32BE_def awaitingReply_def)
  from invalid_transaction_id_aborts [OF wellFormed_awaitingReply 1 2 3, of 2] 1 2 3
  show ?thesis
    by (simp add: wellFormed_awaitingReply) (simp add: awaitingReply_def exampleUrl_def)
qed

text \<open>
  Claim C1 as stated fails after \<^verbatim>\<open>destroy\<close>: the request that still waits gets an
  empty datagram and is cleaned up, but line 126 returns before the warning is emitted.
\<close>

theorem invalid_transaction_id_counterexample:
  "listening destroying 0
   \<and> map_option emitted (onSocketMessage 0 [] 2 destroying) = Some []"
  by (simp add: destroying_eq awaitingReply_def listening_def request_of_def onSocketMessage_def
      onError_def cleanup_def cleanupLocal_def setRequest_def arrayRemove_def destroyCleanup_def Let_def)


subsection \<open>The timeout of a request\<close>

lemma clear_timeout_again:
  assumes "\<not> armed s rid"
  shows "(case request_of s rid of None \<Rightarrow> s | Some r1 \<Rightarrow> setRequest rid (r1\<lparr>timeout := False\<rparr>) s) = s"
proof (cases "request_of s rid")
  case None
  then show ?thesis by simp
next
  case (Some r1)
  with assms have "\<not> timeout r1" by (simp add: armed_def)
  then have "r1\<lparr>timeout := False\<rparr> = r1" by (cases r1) simp
  moreover from Some have "(requests s)[rid := r1] = requests s"
    by (auto simp: request_of_def split: if_splits)
  ultimately show ?thesis using Some by (simp add: setRequest_def)
qed

lemma onTimeout_eq:
  assumes "request_of s rid = Some r"
  shows "onTimeout rid s =
           (if opts_event (req_opts r) = Some ''stopped'' then cleanup rid s
            else onError rid (''tracker request timed out (''
                   @ eventText (opts_event (req_opts r)) @ '')'') s)"
proof -
  have "\<not> armed (onError rid m s) rid" for m
    by (simp add: onError_def Let_def)
  then show ?thesis
    using assms clear_timeout_again [of "cleanup rid s" rid]
      clear_timeout_again [of "onError rid (''tracker request timed out (''
                   @ eventText (opts_event (req_opts r)) @ '')'') s" rid]
    by (simp add: onTimeout_def Let_def)
qed

text \<open>
  Claim C7, as amended. When the timeout of a request fires, the request is cleaned
  up and nothing is sent. No warning is emitted if \<^verbatim>\<open>opts.event\<close> is \<^verbatim>\<open>stopped\<close>,
  nor if the tracker is destroyed; otherwise exactly one warning is emitted, with the
  message \<^verbatim>\<open>tracker request timed out\<close>, the event and the announce URL.
\<close>

theorem request_timeout:
  assumes "wellFormed s" and "request_of s rid = Some r" and "timeout r"
  shows "\<exists>s'. fire (RequestTimeout rid) s = Some s'
           \<and> emitted s' = emitted s @
                (if opts_event (req_opts r) = Some ''stopped'' \<or> destroyed s then []
                 else [EmitWarning (Error (''tracker request timed out (''
                         @ eventText (opts_event (req_opts r)) @ '') ('' @ announceUrl s @ '')''))])
           \<and> cleanedUp s' rid \<and> sent s' = sent s"
proof -
  from assms have a: "armed s rid" by (simp add: armed_def)
  show ?thesis
  proof (cases "opts_event (req_opts r) = Some ''stopped''")
    case True
    with assms a show ?thesis
      by (simp add: onTimeout_eq cleanup_cleanedUp)
  next
    case False
    with assms a show ?thesis
      by (simp add: onTimeout_eq onError_wellFormed onError_emitted)
  qed
qed

subsection \<open>The branches of the message handler\<close>

lemma readUInt32BE_uint32At:
  assumes "off + 4 \<le> length buf"
  shows "readUInt32BE buf off = Some (uint32At buf off)"
proof -
  have "take 4 (drop off buf) = [buf ! off, buf ! (off + 1), buf ! (off + 2), buf ! (off + 3)]"
  proof (rule nth_equalityI)
    from assms show "length (take 4 (drop off buf))
        = length [buf ! off, buf ! (off + 1), buf ! (off + 2), buf ! (off + 3)]"
      by simp
  next
    fix i
    assume "i < length (take 4 (drop off buf))"
    with assms have "i < 4" by simp
    then consider "i = 0" | "i = 1" | "i = 2" | "i = 3" by linarith
    then show "take 4 (drop off buf) ! i
        = [buf ! off, buf ! (off + 1), buf ! (off + 2), buf ! (off + 3)] ! i"
      using assms by cases simp_all
  qed
  with assms show ?thesis
    by (simp add: readUInt32BE_def uint32At_def)
qed

lemma scrapeLoop_emits:
  assumes "8 + 12 * len \<le> length msg"
  shows "n = len - i \<Longrightarrow> i \<le> len \<Longrightarrow>
     scrapeLoop hs msg i len s =
       Some (s\<lparr>emitted := emitted s @
               map (\<lambda>j. EmitScrape (announceUrl s) (element hs j) (uint32At msg (8 + 12 * j))
                          (uint32At msg (12 + 12 * j)) (uint32At msg (16 + 12 * j))) [i..<len]\<rparr>)"
proof (induction n arbitrary: i s)
  case 0
  then have "i = len" by simp
  then show ?case by (subst scrapeLoop.simps) simp
next
  case (Suc n)
  then have lt: "i < len" and n: "n = len - Suc i" and le: "Suc i \<le> len" by simp_all
  from lt assms have "16 + i * 12 + 4 \<le> length msg" by simp
  then have r: "readUInt32BE msg (8 + i * 12) = Some (uint32At msg (8 + 12 * i))"
    "readUInt32BE msg (12 + i * 12) = Some (uint32At msg (12 + 12 * i))"
    "readUInt32BE msg (16 + i * 12) = Some (uint32At msg (16 + 12 * i))"
    by (simp_all add: readUInt32BE_uint32At mult.commute)
  show ?case
    by (subst scrapeLoop.simps) (simp add: lt r Suc.IH [OF n le] upt_conv_Cons emit_def)
qed


lemma emitPeers:
  "foldl (\<lambda>t addr. emit (EmitPeer addr) t) s addrs = s\<lparr>emitted := emitted s @ map EmitPeer addrs\<rparr>"
  by (induction addrs arbitrary: s) (simp_all add: emit_def)

lemma emitted_update_wellFormed [simp]: "wellFormed (s\<lparr>emitted := e\<rparr>) \<longleftrightarrow> wellFormed s"
  by (simp add: wellFormed_def)

lemma emitted_update_cleanedUp [simp]: "cleanedUp (s\<lparr>emitted := e\<rparr>) rid \<longleftrightarrow> cleanedUp s rid"
  by (simp add: cleanedUp_def)

lemma onSocketMessage_dispatch:
  assumes "request_of s rid = Some r"
    and "readUInt32BE msg 4 = Some (unat (transactionId r))"
    and "readUInt32BE msg 0 = Some action"
  shows "8 \<le> length msg"
    and "onSocketMessage rid msg newTid s =
          (if action = 0 then onHandshake rid r msg newTid s
           else if action = 1 then onAnnounceReply rid msg s
           else if action = 2 then onScrapeReply rid r msg s
           else if action = 3 then onErrorReply rid msg s
           else Some (onError rid ''tracker sent invalid action'' s))"
proof -
  from assms(2) show "8 \<le> length msg" by (auto dest: readUInt32BE_length)
  with assms show "onSocketMessage rid msg newTid s =
          (if action = 0 then onHandshake rid r msg newTid s
           else if action = 1 then onAnnounceReply rid msg s
           else if action = 2 then onScrapeReply rid r msg s
           else if action = 3 then onErrorReply rid msg s
           else Some (onError rid ''tracker sent invalid action'' s))"
    by (simp add: onSocketMessage_def)
qed

lemma onErrorReply_effect:
  assumes "wellFormed s" and "8 \<le> length msg"
  shows "\<exists>s'. onErrorReply rid msg s = Some s' \<and> wellFormed s' \<and> cleanedUp s' rid
           \<and> emitted s' = emitted s @
                (if destroyed s then [] else [EmitWarning (ErrorOfBuffer (drop 8 msg))])
           \<and> sent s' = sent s \<and> interval s' = interval s \<and> destroyed s' = destroyed s"
  using assms cleanup_wellFormed [of s rid] cleanup_cleanedUp [of s rid]
  by (simp add: onErrorReply_def Let_def)

lemma onAnnounceReply_short:
  assumes "wellFormed s" and "length msg < 20"
  shows "\<exists>s'. onAnnounceReply rid msg s = Some s' \<and> wellFormed s' \<and> cleanedUp s' rid
           \<and> emitted s' = emitted s @
                (if destroyed s then []
                 else [EmitWarning (Error (''invalid announce message ('' @ announceUrl s @ '')''))])
           \<and> sent s' = sent s \<and> interval s' = interval s \<and> destroyed s' = destroyed s"
  using assms cleanup_wellFormed [of s rid] cleanup_cleanedUp [of s rid]
    onError_wellFormed [of "cleanup rid s" rid "''invalid announce message''"]
  by (simp add: onAnnounceReply_def Let_def onError_emitted)

lemma onAnnounceReply_effect:
  assumes "wellFormed s" and "20 \<le> length msg"
  shows "\<exists>s'. onAnnounceReply rid msg s = Some s' \<and> wellFormed s' \<and> cleanedUp s' rid
           \<and> sent s' = sent s \<and> destroyed s' = destroyed s
           \<and> (destroyed s \<longrightarrow> emitted s' = emitted s \<and> interval s' = interval s)
           \<and> (\<not> destroyed s \<longrightarrow>
                interval s' = (if uint32At msg 8 \<noteq> 0 then Some (uint32At msg 8 * 1000)
                               else interval s)
                \<and> emitted s' = emitted s @
                     EmitUpdate (announceUrl s) (uint32At msg 16) (uint32At msg 12)
                     # (case compact2string_multi (drop 20 msg) of
                          Inl e \<Rightarrow> [EmitWarning e]
                        | Inr addrs \<Rightarrow> map EmitPeer addrs))"
proof (cases "destroyed s")
  case True
  with assms cleanup_wellFormed [of s rid] cleanup_cleanedUp [of s rid] show ?thesis
    by (simp add: onAnnounceReply_def Let_def)
next
  case False
  let ?s1 = "cleanup rid s"
  from assms(2) have r: "readUInt32BE msg 8 = Some (uint32At msg 8)"
    "readUInt32BE msg 16 = Some (uint32At msg 16)"
    "readUInt32BE msg 12 = Some (uint32At msg 12)"
    by (simp_all add: readUInt32BE_uint32At)
  from assms(1) have w: "wellFormed ?s1" "cleanedUp ?s1 rid"
    by (simp_all add: cleanup_wellFormed cleanup_cleanedUp)
  from False have d: "\<not> destroyed ?s1" by simp
  from w d have w2: "wellFormed (setInterval ms ?s1)" for ms
    by (simp add: setInterval_wellFormed)
  show ?thesis
    using assms(2) False r w w2
    by (cases "compact2string_multi (drop 20 msg)")
      (simp_all add: onAnnounceReply_def Let_def emitPeers)
qed

lemma onScrapeReply_invalid:
  assumes "wellFormed s" and "length msg < 20 \<or> (length msg - 8) mod 12 \<noteq> 0"
  shows "\<exists>s'. onScrapeReply rid r msg s = Some s' \<and> wellFormed s' \<and> cleanedUp s' rid
           \<and> emitted s' = emitted s @
                (if destroyed s then []
                 else [EmitWarning (Error (''invalid scrape message ('' @ announceUrl s @ '')''))])
           \<and> sent s' = sent s \<and> interval s' = interval s \<and> destroyed s' = destroyed s"
  using assms cleanup_wellFormed [of s rid] cleanup_cleanedUp [of s rid]
    onError_wellFormed [of "cleanup rid s" rid "''invalid scrape message''"]
  by (auto simp: onScrapeReply_def Let_def onError_emitted)

lemma onScrapeReply_effect:
  assumes "wellFormed s" and "length msg = 8 + 12 * N" and "1 \<le> N"
  shows "\<exists>s'. onScrapeReply rid r msg s = Some s' \<and> wellFormed s' \<and> cleanedUp s' rid
           \<and> sent s' = sent s \<and> interval s' = interval s \<and> destroyed s' = destroyed s
           \<and> emitted s' = emitted s @
                (if destroyed s then []
                 else map (\<lambda>i. EmitScrape (announceUrl s)
                                 (element (scrapeInfoHashes (client s) (req_opts r)) i)
                                 (uint32At msg (8 + 12 * i)) (uint32At msg (12 + 12 * i))
                                 (uint32At msg (16 + 12 * i))) [0..<N])"
proof -
  let ?s1 = "cleanup rid s"
  from assms(1) have w: "wellFormed ?s1" "cleanedUp ?s1 rid"
    by (simp_all add: cleanup_wellFormed cleanup_cleanedUp)
  from assms(2,3) have l: "\<not> length msg < 20" "(length msg - 8) mod 12 = 0" "(length msg - 8) div 12 = N"
    by simp_all
  from assms(2) have "8 + 12 * N \<le> length msg" by simp
  from scrapeLoop_emits [OF this, of N 0 "scrapeInfoHashes (client ?s1) (req_opts r)" ?s1]
  show ?thesis
    using w l by (simp add: onScrapeReply_def Let_def)
qed

lemma example_requests:
  "request_of awaitingReply 0 = Some (requests awaitingReply ! 0)"
  "socket (requests awaitingReply ! 0)"
  "timeout (requests awaitingReply ! 0)"
  "transactionId (requests awaitingReply ! 0) = 1"
  "request_of awaitingStopped 0 = Some (requests awaitingStopped ! 0)"
  "timeout (requests awaitingStopped ! 0)"
  "request_of awaitingScrape 0 = Some (requests awaitingScrape ! 0)"
  "socket (requests awaitingScrape ! 0)"
  "transactionId (requests awaitingScrape ! 0) = 1"
  by (simp_all add: request_of_def awaitingReply_def awaitingStopped_def awaitingScrape_def)

lemma example_fields:
  "emitted awaitingReply = []" "destroyed awaitingReply = False" "interval awaitingReply = None"
  "announceUrl awaitingReply = ''udp://tracker.example:6969''"
  "opts_event (req_opts (requests awaitingReply ! 0)) = Some ''started''"
  "emitted awaitingStopped = []" "destroyed awaitingStopped = False"
  "opts_event (req_opts (requests awaitingStopped ! 0)) = Some ''stopped''"
  "emitted awaitingScrape = []" "destroyed awaitingScrape = False"
  "announceUrl awaitingScrape = ''udp://tracker.example:6969''"
  "client awaitingScrape = exampleClient" "req_opts (requests awaitingScrape ! 0) = scrapeOpts"
  by (simp_all add: awaitingReply_def awaitingStopped_def awaitingScrape_def exampleOpts_def
      exampleUrl_def)

lemma wellFormed_awaitingStopped: "wellFormed awaitingStopped"
  by (simp add: wellFormed_def awaitingStopped_def awaitingReply_def listening_def armed_def request_of_def)

lemma wellFormed_awaitingScrape: "wellFormed awaitingScrape"
  by (simp add: wellFormed_def awaitingScrape_def awaitingReply_def listening_def armed_def request_of_def)

text \<open>The timeout of a \<^verbatim>\<open>started\<close> and of a \<^verbatim>\<open>stopped\<close> announce.\<close>

theorem request_timeout_witness:
  "wellFormed awaitingReply \<and> request_of awaitingReply 0 = Some (requests awaitingReply ! 0)
   \<and> timeout (requests awaitingReply ! 0)
   \<and> (\<exists>s'. fire (RequestTimeout 0) awaitingReply = Some s'
          \<and> emitted s' = [EmitWarning (Error ''tracker request timed out (started) (udp://tracker.example:6969)'')]
          \<and> cleanedUp s' 0)
   \<and> wellFormed awaitingStopped \<and> request_of awaitingStopped 0 = Some (requests awaitingStopped ! 0)
   \<and> timeout (requests awaitingStopped ! 0)
   \<and> (\<exists>s'. fire (RequestTimeout 0) awaitingStopped = Some s' \<and> emitted s' = [] \<and> cleanedUp s' 0)"
proof -
  have "\<exists>s'. fire (RequestTimeout 0) awaitingReply = Some s'
          \<and> emitted s' = [EmitWarning (Error ''tracker request timed out (started) (udp://tracker.example:6969)'')]
          \<and> cleanedUp s' 0"
    using request_timeout [OF wellFormed_awaitingReply example_requests(1) example_requests(3)]
    by (auto simp add: example_fields eventText_def simp del: fire.simps)
  moreover have "\<exists>s'. fire (RequestTimeout 0) awaitingStopped = Some s' \<and> emitted s' = [] \<and> cleanedUp s' 0"
    using request_timeout [OF wellFormed_awaitingStopped example_requests(5) example_requests(6)]
    by (auto simp add: example_fields simp del: fire.simps)
  ultimately show ?thesis
    by (simp add: wellFormed_awaitingReply wellFormed_awaitingStopped example_requests)
qed

text \<open>
  Claim C7 as stated fails after \<^verbatim>\<open>destroy\<close>: the timeout of a \<^verbatim>\<open>started\<close>
  announce fires while \<^verbatim>\<open>destroy\<close> waits for it, and no warning is emitted.
\<close>

theorem request_timeout_counterexample:
  "armed destroying 0 \<and> opts_event (req_opts (requests destroying ! 0)) \<noteq> Some ''stopped''
   \<and> map_option emitted (fire (RequestTimeout 0) destroying) = Some []"
  by (simp add: destroying_eq awaitingReply_def exampleOpts_def armed_def request_of_def
      onTimeout_def onError_def cleanup_def cleanupLocal_def setRequest_def arrayRemove_def
      destroyCleanup_def Let_def)


subsection \<open>Error replies\<close>

text \<open>
  Claim C9, as amended. A datagram shorter than 8 bytes never gets past the first
  check of \<^verbatim>\<open>onSocketMessage\<close>, so a reply that reaches case 3 (action 3, matching
  transaction id) has at least 8 bytes and the check of line 206 is false there. Such
  a reply cleans the request up and changes neither the re-announce timer nor what was
  sent. On a tracker that is not destroyed it emits exactly one event, a warning whose
  message is the text of the bytes from offset 8 on; on a destroyed tracker it emits
  nothing.
\<close>

theorem error_reply:
  assumes "wellFormed s" and "request_of s rid = Some r" and "socket r"
  shows "(\<forall>m. length m < 8 \<longrightarrow>
            onSocketMessage rid m newTid s
              = Some (onError rid ''tracker sent invalid transaction id'' s))
         \<and> (readUInt32BE msg 4 = Some (unat (transactionId r)) \<and> readUInt32BE msg 0 = Some 3 \<longrightarrow>
              8 \<le> length msg
              \<and> (\<exists>s'. onSocketMessage rid msg newTid s = Some s'
                    \<and> emitted s' = emitted s @
                         (if destroyed s then [] else [EmitWarning (ErrorOfBuffer (drop 8 msg))])
                    \<and> cleanedUp s' rid \<and> sent s' = sent s \<and> interval s' = interval s))"
proof (intro conjI allI impI)
  fix m :: buffer
  assume "length m < 8"
  with assms(2) show "onSocketMessage rid m newTid s
      = Some (onError rid ''tracker sent invalid transaction id'' s)"
    by (simp add: onSocketMessage_def)
next
  assume a: "readUInt32BE msg 4 = Some (unat (transactionId r)) \<and> readUInt32BE msg 0 = Some 3"
  then show "8 \<le> length msg"
    using onSocketMessage_dispatch(1) [OF assms(2)] by blast
  from a have "onSocketMessage rid msg newTid s = onErrorReply rid msg s"
    using onSocketMessage_dispatch(2) [OF assms(2), of msg 3 newTid] by simp
  with onErrorReply_effect [OF assms(1) \<open>8 \<le> length msg\<close>, of rid]
  show "\<exists>s'. onSocketMessage rid msg newTid s = Some s'
          \<and> emitted s' = emitted s @
               (if destroyed s then [] else [EmitWarning (ErrorOfBuffer (drop 8 msg))])
          \<and> cleanedUp s' rid \<and> sent s' = sent s \<and> interval s' = interval s"
    by auto
qed

text \<open>A datagram of 4 bytes, and an error reply with the text \<^verbatim>\<open>bad\<close>.\<close>

theorem error_reply_witness:
  "wellFormed awaitingReply \<and> request_of awaitingReply 0 = Some (requests awaitingReply ! 0)
   \<and> socket (requests awaitingReply ! 0)
   \<and> length ([0, 0, 0, 3] :: buffer) < 8
   \<and> onSocketMessage 0 [0, 0, 0, 3] 2 awaitingReply
        = Some (onError 0 ''tracker sent invalid transaction id'' awaitingReply)
   \<and> readUInt32BE errorReply 4
        = Some (unat (transactionId (requests awaitingReply ! 0)))
   \<and> readUInt32BE errorReply 0 = Some 3
   \<and> (\<exists>s'. onSocketMessage 0 errorReply 2 awaitingReply = Some s'
          \<and> emitted s' = [EmitWarning (ErrorOfBuffer [0x62, 0x61, 0x64])]
          \<and> cleanedUp s' 0)"
proof -
  have r: "readUInt32BE errorReply 4
        = Some (unat (transactionId (requests awaitingReply ! 0)))"
    "readUInt32BE errorReply 0 = Some 3"
    by (simp_all add: readUInt32BE_def example_requests errorReply_def)
  have e: "drop 8 errorReply = [0x62, 0x61, 0x64]" by (simp add: errorReply_def)
  from error_reply [OF wellFormed_awaitingReply example_requests(1) example_requests(2),
      of 2 errorReply] r
  show ?thesis
    by (auto simp add: wellFormed_awaitingReply example_requests example_fields e)
qed

text \<open>
  Claim C9 as stated fails after \<^verbatim>\<open>destroy\<close>: line 204 returns before the warning
  is emitted.
\<close>

theorem error_reply_counterexample:
  "listening destroying 0
   \<and> readUInt32BE errorReply 4
        = Some (unat (transactionId (requests destroying ! 0)))
   \<and> readUInt32BE errorReply 0 = Some 3
   \<and> map_option emitted (onSocketMessage 0 errorReply 2 destroying)
        = Some []"
  by (simp add: destroying_eq awaitingReply_def listening_def request_of_def onSocketMessage_def
      onErrorReply_def readUInt32BE_def errorReply_def
      onError_def cleanup_def cleanupLocal_def setRequest_def arrayRemove_def destroyCleanup_def Let_def)

subsection \<open>Announce replies\<close>

text \<open>
  Claim C3, as amended. An announce reply (action 1, matching transaction id) cleans
  the request up. On a tracker that is not destroyed, a reply of at least 20 bytes
  sets the re-announce timer to 1000 times the word at offset 8 if that word is not
  zero, and emits exactly one update event with the announce URL, complete = the word
  at offset 16 and incomplete = the word at offset 12, followed by the peer events, or
  by one warning if the peer list does not decode; a reply shorter than 20 bytes emits
  one warning \<^verbatim>\<open>invalid announce message\<close> (with the announce URL) and no update,
  and leaves the timer. On a destroyed tracker the reply emits nothing and leaves the
  timer.
\<close>

theorem announce_reply:
  assumes "wellFormed s" and "request_of s rid = Some r" and "socket r"
    and "readUInt32BE msg 4 = Some (unat (transactionId r))"
    and "readUInt32BE msg 0 = Some 1"
  shows "(20 \<le> length msg \<longrightarrow>
           (\<exists>s'. onSocketMessage rid msg newTid s = Some s' \<and> cleanedUp s' rid
              \<and> (destroyed s \<longrightarrow> emitted s' = emitted s \<and> interval s' = interval s)
              \<and> (\<not> destroyed s \<longrightarrow>
                   interval s' = (if uint32At msg 8 \<noteq> 0 then Some (uint32At msg 8 * 1000)
                                  else interval s)
                   \<and> emitted s' = emitted s @
                        EmitUpdate (announceUrl s) (uint32At msg 16) (uint32At msg 12)
                        # (case compact2string_multi (drop 20 msg) of
                             Inl e \<Rightarrow> [EmitWarning e]
                           | Inr addrs \<Rightarrow> map EmitPeer addrs))))
         \<and> (length msg < 20 \<longrightarrow>
              (\<exists>s'. onSocketMessage rid msg newTid s = Some s' \<and> cleanedUp s' rid
                 \<and> interval s' = interval s
                 \<and> emitted s' = emitted s @
                      (if destroyed s then []
                       else [EmitWarning (Error (''invalid announce message (''
                                                 @ announceUrl s @ '')''))])))"
proof -
  have d: "onSocketMessage rid msg newTid s = onAnnounceReply rid msg s"
    using onSocketMessage_dispatch(2) [OF assms(2) assms(4) assms(5), of newTid] by simp
  show ?thesis
  proof (intro conjI impI)
    assume "20 \<le> length msg"
    from onAnnounceReply_effect [OF assms(1) this, of rid] d
    show "\<exists>s'. onSocketMessage rid msg newTid s = Some s' \<and> cleanedUp s' rid
              \<and> (destroyed s \<longrightarrow> emitted s' = emitted s \<and> interval s' = interval s)
              \<and> (\<not> destroyed s \<longrightarrow>
                   interval s' = (if uint32At msg 8 \<noteq> 0 then Some (uint32At msg 8 * 1000)
                                  else interval s)
                   \<and> emitted s' = emitted s @
                        EmitUpdate (announceUrl s) (uint32At msg 16) (uint32At msg 12)
                        # (case compact2string_multi (drop 20 msg) of
                             Inl e \<Rightarrow> [EmitWarning e]
                           | Inr addrs \<Rightarrow> map EmitPeer addrs))"
      by auto
  next
    assume "length msg < 20"
    from onAnnounceReply_short [OF assms(1) this, of rid] d
    show "\<exists>s'. onSocketMessage rid msg newTid s = Some s' \<and> cleanedUp s' rid
                 \<and> interval s' = interval s
                 \<and> emitted s' = emitted s @
                      (if destroyed s then []
                       else [EmitWarning (Error (''invalid announce message (''
                                                 @ announceUrl s @ '')''))])"
      by auto
  qed
qed


lemma announceReply_fields:
  "readUInt32BE announceReply 4 = Some 1" "readUInt32BE announceReply 0 = Some 1"
  "length announceReply = 26"
  "uint32At announceReply 8 = 1800" "uint32At announceReply 16 = 9" "uint32At announceReply 12 = 3"
  "compact2string_multi (drop 20 announceReply) = Inr [[10, 0, 0, 1, 0x1A, 0xE1]]"
  by (simp_all add: announceReply_def readUInt32BE_def uint32At_def compact2string_multi_def)

text \<open>
  Interval 1800 gives 1,800,000 ms; the first 12 bytes of the same reply are an
  invalid announce message.
\<close>

theorem announce_reply_witness:
  "wellFormed awaitingReply \<and> request_of awaitingReply 0 = Some (requests awaitingReply ! 0)
   \<and> socket (requests awaitingReply ! 0)
   \<and> readUInt32BE announceReply 4 = Some (unat (transactionId (requests awaitingReply ! 0)))
   \<and> readUInt32BE announceReply 0 = Some 1
   \<and> 20 \<le> length announceReply
   \<and> (\<exists>s'. onSocketMessage 0 announceReply 2 awaitingReply = Some s' \<and> cleanedUp s' 0
          \<and> interval s' = Some 1800000
          \<and> emitted s' = [EmitUpdate ''udp://tracker.example:6969'' 9 3,
                           EmitPeer [10, 0, 0, 1, 0x1A, 0xE1]])
   \<and> readUInt32BE (take 12 announceReply) 4 = Some (unat (transactionId (requests awaitingReply ! 0)))
   \<and> readUInt32BE (take 12 announceReply) 0 = Some 1
   \<and> length (take 12 announceReply) < 20
   \<and> (\<exists>s'. onSocketMessage 0 (take 12 announceReply) 2 awaitingReply = Some s' \<and> cleanedUp s' 0
          \<and> interval s' = None
          \<and> emitted s' = [EmitWarning (Error ''invalid announce message (udp://tracker.example:6969)'')])"
proof -
  have r: "readUInt32BE announceReply 4 = Some (unat (transactionId (requests awaitingReply ! 0)))"
    by (simp add: announceReply_fields example_requests)
  have t: "readUInt32BE (take 12 announceReply) 4 = Some (unat (transactionId (requests awaitingReply ! 0)))"
    "readUInt32BE (take 12 announceReply) 0 = Some 1" "length (take 12 announceReply) < 20"
    by (simp_all add: announceReply_def readUInt32BE_def example_requests)
  from announce_reply [OF wellFormed_awaitingReply example_requests(1) example_requests(2) r
      announceReply_fields(2), of 2]
  have "\<exists>s'. onSocketMessage 0 announceReply 2 awaitingReply = Some s' \<and> cleanedUp s' 0
          \<and> interval s' = Some 1800000
          \<and> emitted s' = [EmitUpdate ''udp://tracker.example:6969'' 9 3,
                           EmitPeer [10, 0, 0, 1, 0x1A, 0xE1]]"
    by (auto simp add: announceReply_fields example_fields)
  moreover
  from announce_reply [OF wellFormed_awaitingReply example_requests(1) example_requests(2) t(1) t(2), of 2] t(3)
  have "\<exists>s'. onSocketMessage 0 (take 12 announceReply) 2 awaitingReply = Some s' \<and> cleanedUp s' 0
          \<and> interval s' = None
          \<and> emitted s' = [EmitWarning (Error ''invalid announce message (udp://tracker.example:6969)'')]"
    by (auto simp add: example_fields)
  ultimately show ?thesis
    using r t by (simp add: wellFormed_awaitingReply example_requests announceReply_fields)
qed

text \<open>
  Claim C3 as stated fails after \<^verbatim>\<open>destroy\<close>: the reply with interval 1800 emits no
  update and sets no timer.
\<close>

theorem announce_reply_counterexample:
  "listening destroying 0
   \<and> readUInt32BE announceReply 4 = Some (unat (transactionId (requests destroying ! 0)))
   \<and> readUInt32BE announceReply 0 = Some 1 \<and> 20 \<le> length announceReply
   \<and> uint32At announceReply 8 = 1800
   \<and> map_option emitted (onSocketMessage 0 announceReply 2 destroying) = Some []
   \<and> map_option interval (onSocketMessage 0 announceReply 2 destroying) = Some None"
  by (simp add: announceReply_fields)
     (simp add: destroying_eq awaitingReply_def listening_def request_of_def onSocketMessage_def
      onAnnounceReply_def readUInt32BE_def announceReply_def
      onError_def cleanup_def cleanupLocal_def setRequest_def arrayRemove_def destroyCleanup_def Let_def)


subsection \<open>A peer list that does not decode\<close>

text \<open>
  Claim C10, as amended. An announce reply of at least 20 bytes (matching transaction
  id) whose tail is not a multiple of 6 bytes makes \<^verbatim>\<open>compact2string.multi\<close> throw,
  and cleans the request up. On a tracker that is not destroyed, the events of the
  reply are the update event and then the warning, with no peer event, and the timer
  has been set from a nonzero interval: the failure of the peer list takes neither
  back. On a destroyed tracker the reply is dropped at line 154, before it is decoded:
  it emits no event, no warning, and sets no timer.
\<close>

theorem peer_list_failure_after_update:
  assumes "wellFormed s" and "request_of s rid = Some r" and "socket r"
    and "readUInt32BE msg 4 = Some (unat (transactionId r))"
    and "readUInt32BE msg 0 = Some 1"
    and "20 \<le> length msg" and "(length msg - 20) mod 6 \<noteq> 0"
  shows "\<exists>s' e. compact2string_multi (drop 20 msg) = Inl e
           \<and> onSocketMessage rid msg newTid s = Some s'
           \<and> cleanedUp s' rid
           \<and> (\<not> destroyed s \<longrightarrow>
                emitted s' = emitted s @
                  [EmitUpdate (announceUrl s) (uint32At msg 16) (uint32At msg 12), EmitWarning e]
                \<and> interval s' = (if uint32At msg 8 \<noteq> 0 then Some (uint32At msg 8 * 1000)
                                  else interval s))
           \<and> (destroyed s \<longrightarrow> emitted s' = emitted s \<and> interval s' = interval s)"
proof -
  have d: "onSocketMessage rid msg newTid s = onAnnounceReply rid msg s"
    using onSocketMessage_dispatch(2) [OF assms(2) assms(4) assms(5), of newTid] by simp
  from assms(7) obtain e where e: "compact2string_multi (drop 20 msg) = Inl e"
    by (simp add: compact2string_multi_def)
  from onAnnounceReply_effect [OF assms(1) assms(6), of rid] d e
  show ?thesis by auto
qed

lemma badPeersReply_fields:
  "readUInt32BE badPeersReply 4 = Some 1" "readUInt32BE badPeersReply 0 = Some 1"
  "length badPeersReply = 25"
  "uint32At badPeersReply 8 = 1800" "uint32At badPeersReply 16 = 9" "uint32At badPeersReply 12 = 3"
  "compact2string_multi (drop 20 badPeersReply)
     = Inl (Error ''buf length isn't multiple of compact IP/PORTs (6 bytes)'')"
  by (simp_all add: badPeersReply_def readUInt32BE_def uint32At_def compact2string_multi_def)

lemma destroying_fields:
  "request_of destroying 0 = Some (requests destroying ! 0)"
  "socket (requests destroying ! 0)" "transactionId (requests destroying ! 0) = 1"
  "destroyed destroying" "emitted destroying = []" "interval destroying = None"
  by (simp_all add: destroying_eq awaitingReply_def request_of_def)

text \<open>A peer list of 5 bytes, before and after \<^verbatim>\<open>destroy\<close>.\<close>

theorem peer_list_failure_after_update_witness:
  "wellFormed awaitingReply \<and> request_of awaitingReply 0 = Some (requests awaitingReply ! 0)
   \<and> socket (requests awaitingReply ! 0)
   \<and> readUInt32BE badPeersReply 4 = Some (unat (transactionId (requests awaitingReply ! 0)))
   \<and> readUInt32BE badPeersReply 0 = Some 1
   \<and> 20 \<le> length badPeersReply \<and> (length badPeersReply - 20) mod 6 \<noteq> 0
   \<and> \<not> destroyed awaitingReply
   \<and> (\<exists>s'. onSocketMessage 0 badPeersReply 2 awaitingReply = Some s'
          \<and> cleanedUp s' 0
          \<and> emitted s' =
               [EmitUpdate ''udp://tracker.example:6969'' 9 3,
                EmitWarning (Error ''buf length isn't multiple of compact IP/PORTs (6 bytes)'')]
          \<and> interval s' = Some 1800000)
   \<and> wellFormed destroying \<and> request_of destroying 0 = Some (requests destroying ! 0)
   \<and> socket (requests destroying ! 0)
   \<and> readUInt32BE badPeersReply 4 = Some (unat (transactionId (requests destroying ! 0)))
   \<and> destroyed destroying
   \<and> (\<exists>s'. onSocketMessage 0 badPeersReply 2 destroying = Some s'
          \<and> cleanedUp s' 0 \<and> emitted s' = [] \<and> interval s' = None)"
proof -
  have r: "readUInt32BE badPeersReply 4 = Some (unat (transactionId (requests awaitingReply ! 0)))"
    by (simp add: badPeersReply_fields example_requests)
  have r': "readUInt32BE badPeersReply 4 = Some (unat (transactionId (requests destroying ! 0)))"
    by (simp add: badPeersReply_fields destroying_fields)
  have l: "20 \<le> length badPeersReply" "(length badPeersReply - 20) mod 6 \<noteq> 0"
    by (simp_all add: badPeersReply_fields)
  from peer_list_failure_after_update [OF wellFormed_awaitingReply example_requests(1)
      example_requests(2) r badPeersReply_fields(2) l, of 2]
  have a: "\<exists>s'. onSocketMessage 0 badPeersReply 2 awaitingReply = Some s'
          \<and> cleanedUp s' 0
          \<and> emitted s' =
               [EmitUpdate ''udp://tracker.example:6969'' 9 3,
                EmitWarning (Error ''buf length isn't multiple of compact IP/PORTs (6 bytes)'')]
          \<and> interval s' = Some 1800000"
    by (auto simp add: badPeersReply_fields example_fields)
  from peer_list_failure_after_update [OF wellFormed_destroying destroying_fields(1)
      destroying_fields(2) r' badPeersReply_fields(2) l, of 2]
  have b: "\<exists>s'. onSocketMessage 0 badPeersReply 2 destroying = Some s'
          \<and> cleanedUp s' 0 \<and> emitted s' = [] \<and> interval s' = None"
    by (auto simp add: destroying_fields)
  from a b show ?thesis
    using r r' l
    by (simp add: wellFormed_awaitingReply wellFormed_destroying example_requests
        badPeersReply_fields example_fields destroying_fields)
qed

text \<open>
  Claim C10 as stated fails after \<^verbatim>\<open>destroy\<close>: the reply with interval 1800 and a
  peer list of 5 bytes emits no update and sets no timer.
\<close>

theorem peer_list_failure_counterexample:
  "listening destroying 0
   \<and> readUInt32BE badPeersReply 4 = Some (unat (transactionId (requests destroying ! 0)))
   \<and> readUInt32BE badPeersReply 0 = Some 1
   \<and> 20 \<le> length badPeersReply \<and> (length badPeersReply - 20) mod 6 \<noteq> 0
   \<and> uint32At badPeersReply 8 = 1800
   \<and> map_option emitted (onSocketMessage 0 badPeersReply 2 destroying) = Some []
   \<and> map_option interval (onSocketMessage 0 badPeersReply 2 destroying) = Some None"
  by (simp add: badPeersReply_fields)
     (simp add: destroying_eq awaitingReply_def listening_def request_of_def onSocketMessage_def
      onAnnounceReply_def readUInt32BE_def badPeersReply_def
      onError_def cleanup_def cleanupLocal_def setRequest_def arrayRemove_def destroyCleanup_def Let_def)

subsection \<open>Scrape replies\<close>

text \<open>
  Claim C2, as amended. A scrape reply (action 2, matching transaction id) cleans the
  request up. On a tracker that is not destroyed, a reply of \<open>8 + 12 * N\<close> bytes with
  \<open>N \<ge> 1\<close> emits exactly \<open>N\<close> scrape events, the \<open>i\<close>-th with complete, downloaded
  and incomplete the words at offsets \<open>8 + 12 * i\<close>, \<open>12 + 12 * i\<close> and \<open>16 + 12 * i\<close>,
  and with \<^verbatim>\<open>infoHash\<close> the \<open>i\<close>-th element of the list of hex texts: the hashes of
  the array in their order, or the one hash given, or the info-hash of the client;
  beyond the end of that list \<^verbatim>\<open>infoHash\<close> is undefined. A reply shorter than 20
  bytes, or with a length minus 8 that is not a multiple of 12, emits one warning
  \<^verbatim>\<open>invalid scrape message\<close> (with the announce URL) and no scrape event. On a
  destroyed tracker the reply emits nothing.
\<close>

theorem scrape_reply:
  assumes "wellFormed s" and "request_of s rid = Some r" and "socket r"
    and "readUInt32BE msg 4 = Some (unat (transactionId r))"
    and "readUInt32BE msg 0 = Some 2"
  shows "(length msg = 8 + 12 * N \<and> 1 \<le> N \<longrightarrow>
           (\<exists>s'. onSocketMessage rid msg newTid s = Some s' \<and> cleanedUp s' rid
              \<and> emitted s' = emitted s @
                   (if destroyed s then []
                    else map (\<lambda>i. EmitScrape (announceUrl s)
                                    (element (scrapeInfoHashes (client s) (req_opts r)) i)
                                    (uint32At msg (8 + 12 * i)) (uint32At msg (12 + 12 * i))
                                    (uint32At msg (16 + 12 * i))) [0..<N])))
         \<and> (length msg < 20 \<or> (length msg - 8) mod 12 \<noteq> 0 \<longrightarrow>
              (\<exists>s'. onSocketMessage rid msg newTid s = Some s' \<and> cleanedUp s' rid
                 \<and> emitted s' = emitted s @
                      (if destroyed s then []
                       else [EmitWarning (Error (''invalid scrape message (''
                                                 @ announceUrl s @ '')''))])))
         \<and> (case opts_infoHash (req_opts r) of
               BufferArray hs \<Rightarrow>
                 hs \<noteq> [] \<longrightarrow> scrapeInfoHashes (client s) (req_opts r) = map toHex hs
             | OneBuffer h \<Rightarrow>
                 h \<noteq> [] \<longrightarrow> scrapeInfoHashes (client s) (req_opts r) = [toHex h]
             | NoInfoHash \<Rightarrow>
                 scrapeInfoHashes (client s) (req_opts r) = [client_infoHash (client s)])"
proof -
  have d: "onSocketMessage rid msg newTid s = onScrapeReply rid r msg s"
    using onSocketMessage_dispatch(2) [OF assms(2) assms(4) assms(5), of newTid] by simp
  have "toHex h \<noteq> []" if "h \<noteq> []" for h
    using that by (cases h) (simp_all add: toHex_def)
  then have h: "case opts_infoHash (req_opts r) of
               BufferArray hs \<Rightarrow>
                 hs \<noteq> [] \<longrightarrow> scrapeInfoHashes (client s) (req_opts r) = map toHex hs
             | OneBuffer h \<Rightarrow>
                 h \<noteq> [] \<longrightarrow> scrapeInfoHashes (client s) (req_opts r) = [toHex h]
             | NoInfoHash \<Rightarrow>
                 scrapeInfoHashes (client s) (req_opts r) = [client_infoHash (client s)]"
    by (simp add: scrapeInfoHashes_def split: infoHashArg.splits)
  show ?thesis
  proof (intro conjI impI)
    assume "length msg = 8 + 12 * N \<and> 1 \<le> N"
    then have "length msg = 8 + 12 * N" "1 \<le> N" by simp_all
    from onScrapeReply_effect [OF assms(1) this, of rid r] d
    show "\<exists>s'. onSocketMessage rid msg newTid s = Some s' \<and> cleanedUp s' rid
              \<and> emitted s' = emitted s @
                   (if destroyed s then []
                    else map (\<lambda>i. EmitScrape (announceUrl s)
                                    (element (scrapeInfoHashes (client s) (req_opts r)) i)
                                    (uint32At msg (8 + 12 * i)) (uint32At msg (12 + 12 * i))
                                    (uint32At msg (16 + 12 * i))) [0..<N])"
      by auto
  next
    assume "length msg < 20 \<or> (length msg - 8) mod 12 \<noteq> 0"
    from onScrapeReply_invalid [OF assms(1) this, of rid r] d
    show "\<exists>s'. onSocketMessage rid msg newTid s = Some s' \<and> cleanedUp s' rid
                 \<and> emitted s' = emitted s @
                      (if destroyed s then []
                       else [EmitWarning (Error (''invalid scrape message (''
                                                 @ announceUrl s @ '')''))])"
      by auto
  next
    from h show "case opts_infoHash (req_opts r) of
               BufferArray hs \<Rightarrow>
                 hs \<noteq> [] \<longrightarrow> scrapeInfoHashes (client s) (req_opts r) = map toHex hs
             | OneBuffer h \<Rightarrow>
                 h \<noteq> [] \<longrightarrow> scrapeInfoHashes (client s) (req_opts r) = [toHex h]
             | NoInfoHash \<Rightarrow>
                 scrapeInfoHashes (client s) (req_opts r) = [client_infoHash (client s)]" .
  qed
qed


lemma scrapeReply_fields:
  "readUInt32BE scrapeReply 4 = Some 1" "readUInt32BE scrapeReply 0 = Some 2"
  "length scrapeReply = 44"
  "uint32At scrapeReply 8 = 1" "uint32At scrapeReply 12 = 2" "uint32At scrapeReply 16 = 3"
  "uint32At scrapeReply 20 = 4" "uint32At scrapeReply 24 = 5" "uint32At scrapeReply 28 = 6"
  "uint32At scrapeReply 32 = 7" "uint32At scrapeReply 36 = 8" "uint32At scrapeReply 40 = 9"
  by (simp_all add: scrapeReply_def readUInt32BE_def uint32At_def)

lemma replicate_20:
  "replicate 20 x = [x, x, x, x, x, x, x, x, x, x, x, x, x, x, x, x, x, x, x, x]"
  by (simp add: numeral_eq_Suc)

lemma scrapeOpts_hashes:
  "opts_infoHash scrapeOpts = BufferArray [replicate 20 0x11, replicate 20 0x22, replicate 20 0x33]"
  "toHex (replicate 20 0x11) = ''1111111111111111111111111111111111111111''"
  "toHex (replicate 20 0x22) = ''2222222222222222222222222222222222222222''"
  "toHex (replicate 20 0x33) = ''3333333333333333333333333333333333333333''"
  by (simp_all add: scrapeOpts_def toHex_def hexDigit_def replicate_20)

text \<open>
  A reply of 44 bytes to a scrape of three info-hashes; its first 21 bytes are an
  invalid scrape message.
\<close>

theorem scrape_reply_witness:
  "wellFormed awaitingScrape \<and> request_of awaitingScrape 0 = Some (requests awaitingScrape ! 0)
   \<and> socket (requests awaitingScrape ! 0)
   \<and> readUInt32BE scrapeReply 4 = Some (unat (transactionId (requests awaitingScrape ! 0)))
   \<and> readUInt32BE scrapeReply 0 = Some 2
   \<and> length scrapeReply = 8 + 12 * 3 \<and> (1 :: nat) \<le> 3
   \<and> (\<exists>s'. onSocketMessage 0 scrapeReply 2 awaitingScrape = Some s' \<and> cleanedUp s' 0
          \<and> emitted s' =
               [EmitScrape ''udp://tracker.example:6969''
                  (Some ''1111111111111111111111111111111111111111'') 1 2 3,
                EmitScrape ''udp://tracker.example:6969''
                  (Some ''2222222222222222222222222222222222222222'') 4 5 6,
                EmitScrape ''udp://tracker.example:6969''
                  (Some ''3333333333333333333333333333333333333333'') 7 8 9])
   \<and> readUInt32BE (take 21 scrapeReply) 4 = Some (unat (transactionId (requests awaitingScrape ! 0)))
   \<and> readUInt32BE (take 21 scrapeReply) 0 = Some 2
   \<and> (length (take 21 scrapeReply) - 8) mod 12 \<noteq> 0
   \<and> (\<exists>s'. onSocketMessage 0 (take 21 scrapeReply) 2 awaitingScrape = Some s' \<and> cleanedUp s' 0
          \<and> emitted s' = [EmitWarning (Error ''invalid scrape message (udp://tracker.example:6969)'')])
   \<and> [replicate 20 0x11, replicate 20 0x22, replicate 20 (0x33 :: byte)] \<noteq> []
   \<and> scrapeInfoHashes exampleClient scrapeOpts =
        map toHex [replicate 20 0x11, replicate 20 0x22, replicate 20 0x33]"
proof -
  have r: "readUInt32BE scrapeReply 4 = Some (unat (transactionId (requests awaitingScrape ! 0)))"
    by (simp add: scrapeReply_fields example_requests)
  have t: "readUInt32BE (take 21 scrapeReply) 4 = Some (unat (transactionId (requests awaitingScrape ! 0)))"
    "readUInt32BE (take 21 scrapeReply) 0 = Some 2"
    "(length (take 21 scrapeReply) - 8) mod 12 \<noteq> 0"
    by (simp_all add: scrapeReply_def readUInt32BE_def example_requests)
  have u: "[0..<3] = [0, 1, 2]" by (simp add: upt_rec)
  note a = scrape_reply [OF wellFormed_awaitingScrape example_requests(7) example_requests(8) r
      scrapeReply_fields(2), of 3 2]
  from a have h: "scrapeInfoHashes exampleClient scrapeOpts =
        map toHex [replicate 20 0x11, replicate 20 0x22, replicate 20 0x33]"
    by (simp add: example_fields scrapeOpts_hashes(1))
  have l: "length scrapeReply = 8 + 12 * 3 \<and> (1 :: nat) \<le> 3"
    by (simp add: scrapeReply_fields)
  have m: "map (\<lambda>i. EmitScrape (announceUrl awaitingScrape)
                   (element (scrapeInfoHashes (client awaitingScrape)
                      (req_opts (requests awaitingScrape ! 0))) i)
                   (uint32At scrapeReply (8 + 12 * i)) (uint32At scrapeReply (12 + 12 * i))
                   (uint32At scrapeReply (16 + 12 * i))) [0..<3]
      = [EmitScrape ''udp://tracker.example:6969''
                  (Some ''1111111111111111111111111111111111111111'') 1 2 3,
                EmitScrape ''udp://tracker.example:6969''
                  (Some ''2222222222222222222222222222222222222222'') 4 5 6,
                EmitScrape ''udp://tracker.example:6969''
                  (Some ''3333333333333333333333333333333333333333'') 7 8 9]"
    by (simp add: u scrapeReply_fields example_fields h scrapeOpts_hashes(2-) element_def)
  from a have "length scrapeReply = 8 + 12 * 3 \<and> (1 :: nat) \<le> 3 \<longrightarrow>
           (\<exists>s'. onSocketMessage 0 scrapeReply 2 awaitingScrape = Some s' \<and> cleanedUp s' 0
              \<and> emitted s' = emitted awaitingScrape @
                   (if destroyed awaitingScrape then []
                    else map (\<lambda>i. EmitScrape (announceUrl awaitingScrape)
                                    (element (scrapeInfoHashes (client awaitingScrape)
                                       (req_opts (requests awaitingScrape ! 0))) i)
                                    (uint32At scrapeReply (8 + 12 * i))
                                    (uint32At scrapeReply (12 + 12 * i))
                                    (uint32At scrapeReply (16 + 12 * i))) [0..<3]))"
    by (rule conjunct1)
  with l have "\<exists>s'. onSocketMessage 0 scrapeReply 2 awaitingScrape = Some s' \<and> cleanedUp s' 0
              \<and> emitted s' = emitted awaitingScrape @
                   (if destroyed awaitingScrape then []
                    else map (\<lambda>i. EmitScrape (announceUrl awaitingScrape)
                                    (element (scrapeInfoHashes (client awaitingScrape)
                                       (req_opts (requests awaitingScrape ! 0))) i)
                                    (uint32At scrapeReply (8 + 12 * i))
                                    (uint32At scrapeReply (12 + 12 * i))
                                    (uint32At scrapeReply (16 + 12 * i))) [0..<3])"
    by (rule rev_mp)
  then have "\<exists>s'. onSocketMessage 0 scrapeReply 2 awaitingScrape = Some s' \<and> cleanedUp s' 0
          \<and> emitted s' =
               [EmitScrape ''udp://tracker.example:6969''
                  (Some ''1111111111111111111111111111111111111111'') 1 2 3,
                EmitScrape ''udp://tracker.example:6969''
                  (Some ''2222222222222222222222222222222222222222'') 4 5 6,
                EmitScrape ''udp://tracker.example:6969''
                  (Some ''3333333333333333333333333333333333333333'') 7 8 9]"
    unfolding m by (simp add: example_fields)
  moreover
  from scrape_reply [OF wellFormed_awaitingScrape example_requests(7) example_requests(8) t(1) t(2), of 3 2] t(3)
  have "\<exists>s'. onSocketMessage 0 (take 21 scrapeReply) 2 awaitingScrape = Some s' \<and> cleanedUp s' 0
          \<and> emitted s' = [EmitWarning (Error ''invalid scrape message (udp://tracker.example:6969)'')]"
    by (auto simp add: example_fields)
  ultimately show ?thesis
    using r t h
    by (simp add: wellFormed_awaitingScrape example_requests scrapeReply_fields)
qed

text \<open>
  Claim C2 as stated fails after \<^verbatim>\<open>destroy\<close>: the reply of 44 bytes emits no scrape
  event.
\<close>

theorem scrape_reply_counterexample:
  "listening (UDPTracker_destroy 7 awaitingScrape) 0
   \<and> readUInt32BE scrapeReply 4
        = Some (unat (transactionId (requests (UDPTracker_destroy 7 awaitingScrape) ! 0)))
   \<and> readUInt32BE scrapeReply 0 = Some 2 \<and> length scrapeReply = 8 + 12 * 3
   \<and> map_option emitted (onSocketMessage 0 scrapeReply 2 (UDPTracker_destroy 7 awaitingScrape))
        = Some []"
  by (simp add: scrapeReply_fields)
     (simp add: UDPTracker_destroy_def awaitingScrape_def awaitingReply_def listening_def
      request_of_def onSocketMessage_def onScrapeReply_def readUInt32BE_def scrapeReply_def
      onError_def cleanup_def cleanupLocal_def setRequest_def arrayRemove_def destroyCleanup_def Let_def)

subsection \<open>Every reachable tracker is well-formed\<close>

lemma watcherStep_same:
  "maybeDestroyCleanup s' = maybeDestroyCleanup s \<Longrightarrow> called s' = called s \<Longrightarrow> watcherStep s s'"
  by (simp add: watcherStep_def split: option.splits)

lemma watcherStep_trans: "watcherStep s t \<Longrightarrow> watcherStep t u \<Longrightarrow> watcherStep s u"
  by (auto simp: watcherStep_def split: option.splits)

lemma cleanup_watcherStep: "watcherStep s (cleanup rid s)"
  by (simp add: watcherStep_def cleanup_def Let_def split: option.splits)

lemma emit_watcherStep: "watcherStep s t \<Longrightarrow> watcherStep s (emit e t)"
  by (simp add: watcherStep_def split: option.splits)

lemma onError_watcherStep: "watcherStep s (onError rid m s)"
  by (simp add: onError_def Let_def cleanup_watcherStep emit_watcherStep)


text \<open>The handshake: a new transaction id and one datagram.\<close>

lemma listening_setRequest:
  "request_of s rid = Some r \<Longrightarrow> socket r' = socket r \<Longrightarrow>
     listening (setRequest rid r' s) = listening s"
  by (auto simp: fun_eq_iff listening_def request_of_def setRequest_def nth_list_update
      split: if_splits)

lemma armed_setRequest:
  "request_of s rid = Some r \<Longrightarrow> timeout r' = timeout r \<Longrightarrow>
     armed (setRequest rid r' s) = armed s"
  by (auto simp: fun_eq_iff armed_def request_of_def setRequest_def nth_list_update
      split: if_splits)

lemma setRequest_fields [simp]:
  "emitted (setRequest rid r s) = emitted s"
  "sent (setRequest rid r s) = sent s"
  "called (setRequest rid r s) = called s"
  "destroyed (setRequest rid r s) = destroyed s"
  "interval (setRequest rid r s) = interval s"
  "announceUrl (setRequest rid r s) = announceUrl s"
  "client (setRequest rid r s) = client s"
  "cleanupFns (setRequest rid r s) = cleanupFns s"
  "maybeDestroyCleanup (setRequest rid r s) = maybeDestroyCleanup s"
  "destroyTimeout (setRequest rid r s) = destroyTimeout s"
  "length (requests (setRequest rid r s)) = length (requests s)"
  by (simp_all add: setRequest_def)

lemma setRequest_wellFormed:
  assumes "wellFormed s" and "request_of s rid = Some r"
  shows "wellFormed (setRequest rid (r\<lparr>transactionId := t\<rparr>) s)"
  using assms listening_setRequest [OF assms(2), of "r\<lparr>transactionId := t\<rparr>"]
    armed_setRequest [OF assms(2), of "r\<lparr>transactionId := t\<rparr>"]
  by (simp add: wellFormed_def)

lemma send_effect:
  "send rid m s = Some s' \<Longrightarrow> s' = s\<lparr>sent := sent s @ [(rid, m)]\<rparr>"
  by (simp add: send_def split: option.splits if_splits)

lemma sent_update_wellFormed [simp]: "wellFormed (s\<lparr>sent := x\<rparr>) \<longleftrightarrow> wellFormed s"
  by (simp add: wellFormed_def)

lemma announce_invariant:
  assumes "wellFormed s" and "announce rid cid opts newTid s = Some s'"
  shows "wellFormed s' \<and> watcherStep s s' \<and> destroyed s' = destroyed s
         \<and> emitted s' = emitted s \<and> interval s' = interval s"
proof (cases "request_of s rid")
  case None
  with assms show ?thesis by (simp add: announce_def watcherStep_same)
next
  case (Some r)
  with assms(2) obtain m where "send rid m (setRequest rid (r\<lparr>transactionId := newTid\<rparr>) s) = Some s'"
    by (auto simp: announce_def Let_def split: Option.bind_splits)
  from send_effect [OF this] setRequest_wellFormed [OF assms(1) Some, of newTid]
  show ?thesis by (simp add: watcherStep_same)
qed

lemma scrape_invariant:
  assumes "wellFormed s" and "scrape rid cid newTid s = Some s'"
  shows "wellFormed s' \<and> watcherStep s s' \<and> destroyed s' = destroyed s
         \<and> emitted s' = emitted s \<and> interval s' = interval s"
proof (cases "request_of s rid")
  case None
  with assms show ?thesis by (simp add: scrape_def watcherStep_same)
next
  case (Some r)
  with assms(2) obtain m where "send rid m (setRequest rid (r\<lparr>transactionId := newTid\<rparr>) s) = Some s'"
    by (auto simp: scrape_def Let_def split: Option.bind_splits)
  from send_effect [OF this] setRequest_wellFormed [OF assms(1) Some, of newTid]
  show ?thesis by (simp add: watcherStep_same)
qed


text \<open>What each handler does to the watcher.\<close>

lemma watcherStep_after:
  "watcherStep s t \<Longrightarrow> watcherStep s (setInterval ms t)"
  "watcherStep s t \<Longrightarrow> watcherStep s (t\<lparr>emitted := es\<rparr>)"
  "watcherStep s t \<Longrightarrow> watcherStep s (onError rid m t)"
  "watcherStep s t \<Longrightarrow> watcherStep s (cleanup rid t)"
  using watcherStep_trans [OF _ onError_watcherStep] watcherStep_trans [OF _ cleanup_watcherStep]
  by (simp_all add: watcherStep_def split: option.splits)

lemma watcherStep_refl: "watcherStep s s"
  by (simp add: watcherStep_same)

lemma scrapeLoop_emitted:
  "n = len - i \<Longrightarrow> scrapeLoop hs msg i len s = Some s' \<Longrightarrow> \<exists>es. s' = s\<lparr>emitted := emitted s @ es\<rparr>"
proof (induction n arbitrary: i s)
  case 0
  then have "\<not> i < len" by simp
  with 0 have "s' = s" by (subst (asm) scrapeLoop.simps) simp
  then have "s' = s\<lparr>emitted := emitted s @ []\<rparr>" by simp
  then show ?case by (rule exI)
next
  case (Suc n)
  then have lt: "i < len" and n: "n = len - (i + 1)" by simp_all
  from Suc.prems(2) lt obtain e where "scrapeLoop hs msg (i + 1) len (emit e s) = Some s'"
    by (subst (asm) scrapeLoop.simps) (auto split: Option.bind_splits)
  from Suc.IH [OF n this] obtain es where "s' = (emit e s)\<lparr>emitted := emitted (emit e s) @ es\<rparr>"
    by blast
  then have "s' = s\<lparr>emitted := emitted s @ (e # es)\<rparr>" by (simp add: emit_def)
  then show ?case by blast
qed

lemma onAnnounceReply_watcherStep: "onAnnounceReply rid msg s = Some s' \<Longrightarrow> watcherStep s s'"
  by (auto simp: onAnnounceReply_def Let_def emitPeers watcherStep_refl
      split: if_splits Option.bind_splits sum.splits
      intro!: watcherStep_after emit_watcherStep)

lemma onScrapeReply_watcherStep:
  assumes "onScrapeReply rid r msg s = Some s'"
  shows "watcherStep s s'"
proof (cases "destroyed s \<or> length msg < 20 \<or> (length msg - 8) mod 12 \<noteq> 0")
  case True
  with assms show ?thesis
    by (auto simp: onScrapeReply_def Let_def watcherStep_refl
        split: if_splits intro!: watcherStep_after)
next
  case False
  with assms have "scrapeLoop (scrapeInfoHashes (client s) (req_opts r)) msg 0
       ((length msg - 8) div 12) (cleanup rid s) = Some s'"
    by (simp add: onScrapeReply_def Let_def)
  from scrapeLoop_emitted [OF refl this]
  obtain es where "s' = (cleanup rid s)\<lparr>emitted := emitted (cleanup rid s) @ es\<rparr>"
    by blast
  then show ?thesis
    by (simp add: watcherStep_after(2) cleanup_watcherStep)
qed

lemma onErrorReply_watcherStep: "onErrorReply rid msg s = Some s' \<Longrightarrow> watcherStep s s'"
  by (auto simp: onErrorReply_def Let_def watcherStep_refl
      split: if_splits intro!: watcherStep_after emit_watcherStep)

lemma onScrapeReply_wellFormed:
  assumes "wellFormed s" and "onScrapeReply rid r msg s = Some s'"
  shows "wellFormed s' \<and> destroyed s' = destroyed s"
proof (cases "length msg < 20 \<or> (length msg - 8) mod 12 \<noteq> 0")
  case True
  from onScrapeReply_invalid [OF assms(1) True, of rid r] assms(2) show ?thesis by auto
next
  case False
  then have "length msg = 8 + 12 * ((length msg - 8) div 12)" "1 \<le> (length msg - 8) div 12"
    by auto
  from onScrapeReply_effect [OF assms(1) this, of rid r] assms(2) show ?thesis by auto
qed

lemma onAnnounceReply_wellFormed:
  assumes "wellFormed s" and "onAnnounceReply rid msg s = Some s'"
  shows "wellFormed s' \<and> destroyed s' = destroyed s"
proof (cases "length msg < 20")
  case True
  from onAnnounceReply_short [OF assms(1) True, of rid] assms(2) show ?thesis by auto
next
  case False
  then have "20 \<le> length msg" by simp
  from onAnnounceReply_effect [OF assms(1) this, of rid] assms(2) show ?thesis by auto
qed

lemma onSocketMessage_invariant:
  assumes "wellFormed s" and "onSocketMessage rid msg newTid s = Some s'"
  shows "wellFormed s' \<and> watcherStep s s' \<and> destroyed s' = destroyed s"
proof (cases "request_of s rid")
  case None
  with assms show ?thesis by (simp add: onSocketMessage_def watcherStep_same)
next
  case (Some r)
  note e = onError_wellFormed [OF assms(1)] onError_watcherStep
  show ?thesis
  proof (cases "length msg < 8")
    case True
    with assms Some e show ?thesis by (auto simp: onSocketMessage_def)
  next
    case False
    then have l: "8 \<le> length msg" by simp
    then obtain t a where t: "readUInt32BE msg 4 = Some t" and a: "readUInt32BE msg 0 = Some a"
      using readUInt32BE_Some [of 4 msg] readUInt32BE_Some [of 0 msg] by auto
    show ?thesis
    proof (cases "t = unat (transactionId r)")
      case False
      with assms Some e t l show ?thesis by (auto simp: onSocketMessage_def)
    next
      case True
      with t have m: "readUInt32BE msg 4 = Some (unat (transactionId r))" by simp
      note d = onSocketMessage_dispatch(2) [OF Some m a, of newTid]
      consider "a = 0" | "a = 1" | "a = 2" | "a = 3" | "a > 3" by linarith
      then show ?thesis
      proof cases
        case 1
        with d assms(2) have h: "onHandshake rid r msg newTid s = Some s'" by simp
        then show ?thesis
          using e announce_invariant [OF assms(1)] scrape_invariant [OF assms(1)]
          by (auto simp: onHandshake_def split: if_splits)
      next
        case 2
        with d assms(2) have "onAnnounceReply rid msg s = Some s'" by simp
        then show ?thesis
          using onAnnounceReply_wellFormed [OF assms(1)] onAnnounceReply_watcherStep by blast
      next
        case 3
        with d assms(2) have "onScrapeReply rid r msg s = Some s'" by simp
        then show ?thesis
          using onScrapeReply_wellFormed [OF assms(1)] onScrapeReply_watcherStep by blast
      next
        case 4
        with d assms(2) have "onErrorReply rid msg s = Some s'" by simp
        then show ?thesis
          using onErrorReply_effect [OF assms(1) l, of rid] onErrorReply_watcherStep by auto
      next
        case 5
        with d assms(2) e show ?thesis by auto
      qed
    qed
  qed
qed


lemma onTimeout_invariant:
  assumes "wellFormed s" and "armed s rid"
  shows "wellFormed (onTimeout rid s) \<and> watcherStep s (onTimeout rid s)
         \<and> destroyed (onTimeout rid s) = destroyed s"
proof -
  from assms(2) obtain r where r: "request_of s rid = Some r"
    by (auto simp: armed_def split: option.splits)
  show ?thesis
    using assms(1) cleanup_wellFormed [of s rid] onError_wellFormed [of s rid]
    by (simp add: onTimeout_eq [OF r] cleanup_watcherStep onError_watcherStep)
qed

lemma UDPTracker_request_invariant:
  assumes "wellFormed s" and "\<not> destroyed s" and "UDPTracker_request opts tid s = Some s'"
  shows "wellFormed s' \<and> watcherStep s s' \<and> \<not> destroyed s'"
proof -
  let ?rid = "length (requests s)"
  let ?r = "\<lparr>req_opts = opts, transactionId = tid, timeout = True, socket = True\<rparr>"
  from assms(3) obtain m where
    s': "s' = s\<lparr>requests := requests s @ [?r], cleanupFns := cleanupFns s @ [?rid],
               sent := sent s @ [(?rid, m)]\<rparr>"
    by (auto simp: UDPTracker_request_def Let_def send_new_request split: Option.bind_splits)
  have l: "listening s' x \<longleftrightarrow> listening s x \<or> x = ?rid" for x
    by (auto simp: s' listening_def request_of_def nth_append split: if_splits)
  have a: "armed s' x \<longleftrightarrow> armed s x \<or> x = ?rid" for x
    by (auto simp: s' armed_def request_of_def nth_append split: if_splits)
  from assms(1) have "?rid \<notin> set (cleanupFns s)"
    unfolding wellFormed_iff using listening_less [of s ?rid] by auto
  with assms(1,2) have "wellFormed s'"
    unfolding wellFormed_iff l a by (auto simp: s')
  then show ?thesis using assms(2) by (simp add: s' watcherStep_same)
qed

lemma UDPTracker_destroy_wellFormed:
  assumes "wellFormed s"
  shows "wellFormed (UDPTracker_destroy cb s)"
proof (cases "destroyed s")
  case True
  with assms show ?thesis by (simp add: UDPTracker_destroy_def wellFormed_def)
next
  case False
  show ?thesis
  proof (cases "cleanupFns s = []")
    case True
    have "wellFormed (destroyCleanup cb (s\<lparr>destroyed := True, interval := None\<rparr>))"
      using assms unfolding wellFormed_iff
      by (intro destroyCleanup_wellFormed [unfolded wellFormed_iff]) auto
    with False True show ?thesis by (simp add: UDPTracker_destroy_def Let_def)
  next
    case ne: False
    with assms False show ?thesis
      unfolding wellFormed_iff by (auto simp: UDPTracker_destroy_def Let_def)
  qed
qed

lemma fire_wellFormed:
  assumes "wellFormed s" and "fire e s = Some s'"
  shows "wellFormed s'"
proof (cases e)
  case (Announce opts tid)
  with assms UDPTracker_request_invariant [OF assms(1)] show ?thesis
    by (auto simp: UDPTracker_announce_def split: if_splits)
next
  case (Scrape opts tid)
  with assms UDPTracker_request_invariant [OF assms(1)] show ?thesis
    by (auto simp: UDPTracker_scrape_def split: if_splits)
next
  case (Destroy cb)
  with assms show ?thesis by (auto simp: UDPTracker_destroy_wellFormed)
next
  case (RequestTimeout rid)
  with assms onTimeout_invariant [OF assms(1)] show ?thesis by (auto split: if_splits)
next
  case (SocketMessage rid msg newTid)
  with assms onSocketMessage_invariant [OF assms(1)] show ?thesis by (auto split: if_splits)
next
  case (SocketError rid m)
  with assms onError_wellFormed [OF assms(1)] show ?thesis by (auto split: if_splits)
next
  case DestroyTimeout
  have "wellFormed (destroyCleanup cb s)" for cb
    using assms(1) unfolding wellFormed_iff
    by (intro destroyCleanup_wellFormed [unfolded wellFormed_iff]) auto
  with DestroyTimeout assms show ?thesis by (auto split: option.splits)
qed


lemma wellFormed_run: "wellFormed s \<Longrightarrow> run es s = Some s' \<Longrightarrow> wellFormed s'"
proof (induction es arbitrary: s)
  case Nil
  then show ?case by simp
next
  case (Cons e es)
  then show ?case by (auto split: option.splits dest: fire_wellFormed)
qed

lemma run_awaitingReply: "run [Announce exampleOpts 1] (UDPTracker exampleClient exampleUrl) = Some awaitingReply"
  by (simp add: UDPTracker_announce_def UDPTracker_request_def UDPTracker_def Let_def
      connectMessage_def toUInt32_def ACTIONS_CONNECT_def CONNECTION_ID_def tidBytes_def
      send_def request_of_def awaitingReply_def)



subsection \<open>Destroy\<close>













subsection \<open>A closed request stays closed\<close>

lemma quiet_refl: "quiet rid s s"
  by (simp add: quiet_def)

lemma quiet_trans: "quiet rid s t \<Longrightarrow> quiet rid t u \<Longrightarrow> quiet rid s u"
  by (simp add: quiet_def)

lemma quiet_cleanup: "quiet rid s (cleanup r s)"
  by (auto simp: quiet_def cleanup_def Let_def split: option.splits)

lemma quiet_emit: "quiet rid s t \<Longrightarrow> quiet rid s (emit e t)"
  by (simp add: quiet_def)

lemma quiet_onError: "quiet rid s (onError r m s)"
  by (simp add: onError_def Let_def quiet_cleanup quiet_emit)

lemma quiet_after:
  "quiet rid s t \<Longrightarrow> quiet rid s (setInterval ms t)"
  "quiet rid s t \<Longrightarrow> quiet rid s (t\<lparr>emitted := es\<rparr>)"
  "quiet rid s t \<Longrightarrow> quiet rid s (onError r m t)"
  "quiet rid s t \<Longrightarrow> quiet rid s (cleanup r t)"
proof -
  show "quiet rid s t \<Longrightarrow> quiet rid s (setInterval ms t)" by (simp add: quiet_def)
  show "quiet rid s t \<Longrightarrow> quiet rid s (t\<lparr>emitted := es\<rparr>)" by (simp add: quiet_def)
  show "quiet rid s t \<Longrightarrow> quiet rid s (onError r m t)"
    by (rule quiet_trans [OF _ quiet_onError])
  show "quiet rid s t \<Longrightarrow> quiet rid s (cleanup r t)"
    by (rule quiet_trans [OF _ quiet_cleanup])
qed

lemma quiet_destroyCleanup: "quiet rid s (destroyCleanup cb s)"
  by (simp add: quiet_def)

lemma quiet_onAnnounceReply: "onAnnounceReply r msg s = Some s' \<Longrightarrow> quiet rid s s'"
  by (auto simp: onAnnounceReply_def Let_def emitPeers quiet_refl
      split: if_splits Option.bind_splits sum.splits
      intro!: quiet_after quiet_emit)

lemma quiet_onErrorReply: "onErrorReply r msg s = Some s' \<Longrightarrow> quiet rid s s'"
  by (auto simp: onErrorReply_def Let_def quiet_refl
      split: if_splits intro!: quiet_after quiet_emit)

lemma quiet_onScrapeReply:
  assumes "onScrapeReply r rq msg s = Some s'"
  shows "quiet rid s s'"
proof (cases "destroyed s \<or> length msg < 20 \<or> (length msg - 8) mod 12 \<noteq> 0")
  case True
  with assms show ?thesis
    by (auto simp: onScrapeReply_def Let_def quiet_refl split: if_splits intro!: quiet_after)
next
  case False
  with assms have "scrapeLoop (scrapeInfoHashes (client s) (req_opts rq)) msg 0
       ((length msg - 8) div 12) (cleanup r s) = Some s'"
    by (simp add: onScrapeReply_def Let_def)
  from scrapeLoop_emitted [OF refl this]
  obtain es where "s' = (cleanup r s)\<lparr>emitted := emitted (cleanup r s) @ es\<rparr>"
    by blast
  then show ?thesis
    by (simp add: quiet_after(2) quiet_cleanup)
qed

lemma quiet_handshake:
  assumes "request_of s r = Some rq" and "r \<noteq> rid"
    and "send r m (setRequest r (rq\<lparr>transactionId := newTid\<rparr>) s) = Some s'"
  shows "quiet rid s s'"
  using send_effect [OF assms(3)] assms(2)
    listening_setRequest [OF assms(1), of "rq\<lparr>transactionId := newTid\<rparr>"]
  by (simp add: quiet_def)

lemma quiet_onHandshake:
  assumes "request_of s r = Some rq" and "r \<noteq> rid" and "onHandshake r rq msg newTid s = Some s'"
  shows "quiet rid s s'"
proof (cases "length msg < 16")
  case True
  with assms(3) show ?thesis by (auto simp: onHandshake_def quiet_onError)
next
  case False
  with assms(1,3) obtain m where
    "send r m (setRequest r (rq\<lparr>transactionId := newTid\<rparr>) s) = Some s'"
    by (auto simp: onHandshake_def announce_def scrape_def Let_def
        split: if_splits Option.bind_splits)
  from quiet_handshake [OF assms(1,2) this] show ?thesis .
qed

lemma quiet_onSocketMessage:
  assumes "r \<noteq> rid" and "onSocketMessage r msg newTid s = Some s'"
  shows "quiet rid s s'"
proof (cases "request_of s r")
  case None
  with assms show ?thesis by (simp add: onSocketMessage_def quiet_refl)
next
  case (Some rq)
  with assms(2) show ?thesis
    using quiet_onHandshake [OF Some assms(1)]
    by (auto simp: onSocketMessage_def quiet_onError
        split: if_splits Option.bind_splits
        intro: quiet_onAnnounceReply quiet_onScrapeReply quiet_onErrorReply)
qed

lemma quiet_onTimeout: "quiet rid s (onTimeout r s)"
proof (cases "request_of s r")
  case None
  then show ?thesis by (simp add: onTimeout_def quiet_refl)
next
  case (Some rq)
  then show ?thesis by (simp add: onTimeout_eq quiet_cleanup quiet_onError)
qed

lemma fire_closed_request:
  assumes "\<not> listening s rid" and "rid < length (requests s)" and "fire e s = Some t"
  shows "\<not> listening t rid \<and> rid < length (requests t)
         \<and> filter (\<lambda>p. fst p = rid) (sent t) = filter (\<lambda>p. fst p = rid) (sent s)"
proof -
  have q: "quiet rid s t \<Longrightarrow> ?thesis"
    using assms(1,2) by (auto simp: quiet_def)
  have n: ?thesis if "UDPTracker_request opts tid s = Some t" for opts tid
  proof -
    from that obtain m where
      t: "t = s\<lparr>requests := requests s @ [\<lparr>req_opts = opts, transactionId = tid,
                                           timeout = True, socket = True\<rparr>],
                cleanupFns := cleanupFns s @ [length (requests s)],
                sent := sent s @ [(length (requests s), m)]\<rparr>"
      by (auto simp: UDPTracker_request_def Let_def send_new_request split: Option.bind_splits)
    from assms(1,2) show ?thesis
      by (auto simp: t listening_def request_of_def nth_append)
  qed
  show ?thesis
  proof (cases e)
    case (Announce opts tid)
    show ?thesis
    proof (cases "destroyed s")
      case True
      with Announce assms(3) have "t = s" by (simp add: UDPTracker_announce_def)
      with assms(1,2) show ?thesis by simp
    next
      case False
      with Announce assms(3) have "UDPTracker_request opts tid s = Some t"
        by (simp add: UDPTracker_announce_def)
      then show ?thesis by (rule n)
    qed
  next
    case (Scrape opts tid)
    show ?thesis
    proof (cases "destroyed s")
      case True
      with Scrape assms(3) have "t = s" by (simp add: UDPTracker_scrape_def)
      with assms(1,2) show ?thesis by simp
    next
      case False
      with Scrape assms(3) have "UDPTracker_request (opts\<lparr>opts_scrape := True\<rparr>) tid s = Some t"
        by (simp add: UDPTracker_scrape_def)
      then show ?thesis by (rule n)
    qed
  next
    case (Destroy cb)
    have "quiet rid s (UDPTracker_destroy cb s)"
      by (simp add: UDPTracker_destroy_def Let_def quiet_def)
    with Destroy assms(3) have "quiet rid s t" by simp
    then show ?thesis by (rule q)
  next
    case (RequestTimeout r)
    with assms(3) have "quiet rid s t"
      by (cases "armed s r") (auto simp: quiet_refl quiet_onTimeout)
    then show ?thesis by (rule q)
  next
    case (SocketMessage r msg newTid)
    have "quiet rid s t"
    proof (cases "listening s r")
      case True
      with assms(1) have "r \<noteq> rid" by auto
      moreover from True SocketMessage assms(3) have "onSocketMessage r msg newTid s = Some t"
        by simp
      ultimately show ?thesis by (rule quiet_onSocketMessage)
    next
      case False
      with SocketMessage assms(3) show ?thesis by (simp add: quiet_refl)
    qed
    then show ?thesis by (rule q)
  next
    case (SocketError r m)
    with assms(3) have "quiet rid s t"
      by (cases "listening s r") (auto simp: quiet_refl quiet_onError)
    then show ?thesis by (rule q)
  next
    case DestroyTimeout
    with assms(3) have "quiet rid s t"
      by (cases "destroyTimeout s") (auto simp: quiet_refl quiet_destroyCleanup)
    then show ?thesis by (rule q)
  qed
qed

lemma run_closed_request:
  "\<not> listening s rid \<Longrightarrow> rid < length (requests s) \<Longrightarrow> run es s = Some t \<Longrightarrow>
     \<not> listening t rid \<and> rid < length (requests t)
     \<and> filter (\<lambda>p. fst p = rid) (sent t) = filter (\<lambda>p. fst p = rid) (sent s)"
proof (induction es arbitrary: s)
  case Nil
  then show ?case by simp
next
  case (Cons e es)
  from Cons.prems(3) obtain u where u: "fire e s = Some u" "run es u = Some t"
    by (auto split: option.splits)
  from fire_closed_request [OF Cons.prems(1,2) u(1)] Cons.IH [OF _ _ u(2)]
  show ?case by simp
qed

subsection \<open>A short connect reply\<close>

text \<open>
  Claim C4, as amended. A connect reply (action 0, matching transaction id) shorter
  than 16 bytes cleans the request up, and the announce or scrape request is not sent,
  neither by this handler nor by anything that happens later. On a tracker that is not
  destroyed exactly one warning is emitted, with the message
  \<^verbatim>\<open>invalid udp handshake\<close> followed by the announce URL in parentheses; on a
  destroyed tracker no warning is emitted.
\<close>

theorem short_handshake_aborts:
  assumes "wellFormed s" and "request_of s rid = Some r" and "socket r"
    and "readUInt32BE msg 4 = Some (unat (transactionId r))"
    and "readUInt32BE msg 0 = Some 0"
    and "length msg < 16"
  shows "\<exists>s'. onSocketMessage rid msg newTid s = Some s'
           \<and> emitted s' = emitted s @
                (if destroyed s then []
                 else [EmitWarning (Error (''invalid udp handshake ('' @ announceUrl s @ '')''))])
           \<and> cleanedUp s' rid \<and> sent s' = sent s
           \<and> (\<forall>es s''. run es s' = Some s'' \<longrightarrow>
                  filter (\<lambda>p. fst p = rid) (sent s'') = filter (\<lambda>p. fst p = rid) (sent s))"
proof -
  let ?s' = "onError rid ''invalid udp handshake'' s"
  from assms(4) have "8 \<le> length msg" by (auto dest: readUInt32BE_length)
  with assms have h: "onSocketMessage rid msg newTid s = Some ?s'"
    by (simp add: onSocketMessage_def onHandshake_def)
  from assms(1) have c: "cleanedUp ?s' rid" by (simp add: onError_wellFormed)
  then have l: "\<not> listening ?s' rid" by (simp add: cleanedUp_def)
  from assms(2) have "rid < length (requests s)"
    by (simp add: request_of_def split: if_splits)
  then have n: "rid < length (requests ?s')" by simp
  have "filter (\<lambda>p. fst p = rid) (sent s'') = filter (\<lambda>p. fst p = rid) (sent s)"
    if "run es ?s' = Some s''" for es s''
    using run_closed_request [OF l n that] by simp
  with h c show ?thesis by (simp add: onError_emitted)
qed

text \<open>
  A connect reply of 12 bytes; the whole connect reply, when it comes afterwards, is
  not answered.
\<close>

theorem short_handshake_aborts_witness:
  "wellFormed awaitingReply \<and> request_of awaitingReply 0 = Some (requests awaitingReply ! 0)
   \<and> socket (requests awaitingReply ! 0)
   \<and> readUInt32BE (take 12 connectReply) 4 = Some (unat (transactionId (requests awaitingReply ! 0)))
   \<and> readUInt32BE (take 12 connectReply) 0 = Some 0
   \<and> length (take 12 connectReply) < 16
   \<and> (\<exists>s'. onSocketMessage 0 (take 12 connectReply) 2 awaitingReply = Some s'
          \<and> emitted s' = [EmitWarning (Error ''invalid udp handshake (udp://tracker.example:6969)'')]
          \<and> cleanedUp s' 0 \<and> sent s' = sent awaitingReply
          \<and> (\<exists>s''. run [SocketMessage 0 connectReply 3] s' = Some s''
                 \<and> filter (\<lambda>p. fst p = 0) (sent s'') = filter (\<lambda>p. fst p = 0) (sent awaitingReply)))"
proof -
  have r: "readUInt32BE (take 12 connectReply) 4 = Some (unat (transactionId (requests awaitingReply ! 0)))"
    "readUInt32BE (take 12 connectReply) 0 = Some 0" "length (take 12 connectReply) < 16"
    by (simp_all add: readUInt32BE_def connectReply_def example_requests)
  from short_handshake_aborts [OF wellFormed_awaitingReply example_requests(1) example_requests(2) r, of 2]
  obtain s' where s': "onSocketMessage 0 (take 12 connectReply) 2 awaitingReply = Some s'"
    "emitted s' = [EmitWarning (Error ''invalid udp handshake (udp://tracker.example:6969)'')]"
    "cleanedUp s' 0" "sent s' = sent awaitingReply"
    "\<forall>es s''. run es s' = Some s'' \<longrightarrow>
        filter (\<lambda>p. fst p = 0) (sent s'') = filter (\<lambda>p. fst p = 0) (sent awaitingReply)"
    by (auto simp add: example_fields)
  from s'(3) have "run [SocketMessage 0 connectReply 3] s' = Some s'"
    by (simp add: cleanedUp_def)
  with s'(5) have "\<exists>s''. run [SocketMessage 0 connectReply 3] s' = Some s''
      \<and> filter (\<lambda>p. fst p = 0) (sent s'') = filter (\<lambda>p. fst p = 0) (sent awaitingReply)"
    by blast
  with s' r show ?thesis
    by (auto simp add: wellFormed_awaitingReply example_requests)
qed

text \<open>
  Claim C4 as stated fails after \<^verbatim>\<open>destroy\<close>: a connect reply of 8 bytes is not
  reported.
\<close>

theorem short_handshake_counterexample:
  "listening destroying 0
   \<and> readUInt32BE (take 8 connectReply) 4 = Some (unat (transactionId (requests destroying ! 0)))
   \<and> readUInt32BE (take 8 connectReply) 0 = Some 0
   \<and> length (take 8 connectReply) < 16
   \<and> map_option emitted (onSocketMessage 0 (take 8 connectReply) 2 destroying) = Some []"
  by (simp add: destroying_eq awaitingReply_def listening_def request_of_def onSocketMessage_def
      onHandshake_def readUInt32BE_def connectReply_def
      onError_def cleanup_def cleanupLocal_def setRequest_def arrayRemove_def destroyCleanup_def Let_def)

subsection \<open>The 64-bit fields of the announce request\<close>








end
